theory Spec2Isabelle
  imports Complex_Main
begin

section \<open>Errors\<close>

text \<open>
  The Python exceptions that the modelled functions can raise. A function that can
  raise returns a sum: \<open>Inl\<close> the exception, \<open>Inr\<close> the value.
\<close>

datatype error = ValueError | IndexError | KeyError | UnboundLocalError

section \<open>Return computation (yarll/misc/utils.py)\<close>

text \<open>
  Floating-point numbers are modelled as real numbers: rounding is not part of the model.

  \<open>scipy.signal.lfilter(b, a, x)\<close> is the linear filter of the difference equation
  \<open>a[0]*y[n] = b[0]*x[n] + ... + b[M]*x[n-M] - a[1]*y[n-1] - ... - a[N]*y[n-N]\<close>
  with zero initial conditions. \<open>dot cs hs\<close> pairs the coefficients with the history
  (most recent entry first); history that does not exist yet contributes nothing.
\<close>

definition dot :: "real list \<Rightarrow> real list \<Rightarrow> real" where
  "dot cs hs = sum_list (map2 (*) cs hs)"

fun lfilter_run :: "real list \<Rightarrow> real \<Rightarrow> real list \<Rightarrow> real list \<Rightarrow> real list \<Rightarrow> real list \<Rightarrow> real list" where
  "lfilter_run b a0 as xh yh [] = []"
| "lfilter_run b a0 as xh yh (x # xs) =
     (let y = (dot b (x # xh) - dot as yh) / a0
      in y # lfilter_run b a0 as (x # xh) (y # yh) xs)"

definition lfilter :: "real list \<Rightarrow> real list \<Rightarrow> real list \<Rightarrow> error + real list" where
  "lfilter b a x =
     (case a of
        [] \<Rightarrow> Inl ValueError
      | a0 # as \<Rightarrow> if a0 = 0 then Inl ValueError else Inr (lfilter_run b a0 as [] [] x))"

text \<open>
  \<^verbatim>\<open>return signal.lfilter([1], [1, -gamma], x[::-1], axis=0)[::-1]\<close>
\<close>

definition discount_rewards :: "real list \<Rightarrow> real \<Rightarrow> error + real list" where
  "discount_rewards x gamma =
     (case lfilter [1] [1, - gamma] (rev x) of
        Inl e \<Rightarrow> Inl e
      | Inr y \<Rightarrow> Inr (rev y))"

subsection \<open>Auxiliary functions for the proofs about the return computation\<close>

text \<open>
  The first-order recursion that the filter runs for \<open>b = [1]\<close>, \<open>a = [1, -gamma]\<close>
  (\<open>p\<close> is the previous output), and the backward recursion of the docstring of
  \<open>discount_rewards\<close> as a function on the reward list. Both are proved equal to the
  model of the code below and serve the proofs only.
\<close>

fun iir :: "real \<Rightarrow> real \<Rightarrow> real list \<Rightarrow> real list" where
  "iir g p [] = []"
| "iir g p (x # xs) = (x + g * p) # iir g (x + g * p) xs"

fun backward_returns :: "real \<Rightarrow> real list \<Rightarrow> real list" where
  "backward_returns g [] = []"
| "backward_returns g [r] = [r]"
| "backward_returns g (r # r' # rs) = (r + g * hd (backward_returns g (r' # rs))) # backward_returns g (r' # rs)"

section \<open>Gradient clipping (agents/a3c.py, A3CThread.__init__)\<close>

text \<open>
  A gradient tensor is the list of its components. \<open>tf.clip_by_value(t, lo, hi)\<close> takes
  the minimum with \<open>hi\<close> and then the maximum with \<open>lo\<close>, componentwise.
  \<^verbatim>\<open>
  if clip_gradients:
      gradient_clip_value = self.config["gradient_clip_value"]
      processed_grads = [tf.clip_by_value(grad, -gradient_clip_value, gradient_clip_value) for grad in grads]
  else:
      processed_grads = grads
  self.train_op = optimizer.apply_gradients(zip(processed_grads, master.shared_ac_net.vars), ...)
  \<close>
\<close>

definition clip_by_value :: "real list \<Rightarrow> real \<Rightarrow> real \<Rightarrow> real list" where
  "clip_by_value t clip_value_min clip_value_max =
     map (\<lambda>v. max (min v clip_value_max) clip_value_min) t"

definition processed_grads :: "bool \<Rightarrow> real \<Rightarrow> real list list \<Rightarrow> real list list" where
  "processed_grads clip_gradients gradient_clip_value grads =
     (if clip_gradients
      then map (\<lambda>grad. clip_by_value grad (- gradient_clip_value) gradient_clip_value) grads
      else grads)"

definition train_op_grads_and_vars ::
  "bool \<Rightarrow> real \<Rightarrow> real list list \<Rightarrow> 'v list \<Rightarrow> (real list \<times> 'v) list" where
  "train_op_grads_and_vars clip_gradients gradient_clip_value grads shared_vars =
     zip (processed_grads clip_gradients gradient_clip_value grads) shared_vars"

section \<open>Soft update of target variables (yarll/misc/utils.py)\<close>

text \<open>
  A \<open>tf.Variable\<close> is a reference: variables are addresses (\<open>nat\<close>) into a store
  that maps each address to its current value, a tensor of fixed shape, that is an
  element of a real vector space. The same variable may occur several times in either
  sequence. The result is the raised exception, if any, and the store when the call
  ends.
  \<^verbatim>\<open>
  if len(source_vars) != len(target_vars):
      raise ValueError("source_vars and target_vars must have the same length.")
  for source, target in zip(source_vars, target_vars):
      target.assign((1.0 - tau) * target + tau * source)
  \<close>
\<close>

fun soft_update_loop :: "(nat \<times> nat) list \<Rightarrow> real \<Rightarrow> (nat \<Rightarrow> 'a::real_vector) \<Rightarrow> (nat \<Rightarrow> 'a)" where
  "soft_update_loop [] tau st = st"
| "soft_update_loop ((source, target) # ps) tau st =
     soft_update_loop ps tau (st(target := (1 - tau) *\<^sub>R st target + tau *\<^sub>R st source))"

definition soft_update ::
  "nat list \<Rightarrow> nat list \<Rightarrow> real \<Rightarrow> (nat \<Rightarrow> 'a::real_vector) \<Rightarrow> error option \<times> (nat \<Rightarrow> 'a)" where
  "soft_update source_vars target_vars tau st =
     (if length source_vars \<noteq> length target_vars then (Some ValueError, st)
      else (None, soft_update_loop (zip source_vars target_vars) tau st))"

definition hard_update ::
  "nat list \<Rightarrow> nat list \<Rightarrow> (nat \<Rightarrow> 'a::real_vector) \<Rightarrow> error option \<times> (nat \<Rightarrow> 'a)" where
  "hard_update source_vars target_vars st = soft_update source_vars target_vars 1 st"

section \<open>Environments\<close>

text \<open>
  The environment is outside the repository's files: it is a parameter of the model, a
  transition system on a hidden state \<open>'e\<close> (which also holds whatever randomness it
  uses). \<open>env_reset\<close> and \<open>env_step\<close> return the next hidden state with what
  \<open>reset()\<close> and \<open>step(action)\<close> return (the \<open>info\<close> component of a step is dropped,
  as the code drops it); \<open>env_render\<close> is \<open>render()\<close>.
\<close>

record ('e, 'r, 'a) environment =
  env_reset :: "'e \<Rightarrow> 'e \<times> 'r"
  env_step :: "'e \<Rightarrow> 'a \<Rightarrow> 'e \<times> 'r \<times> real \<times> bool"
  env_render :: "'e \<Rightarrow> 'e"

section \<open>Trajectory collection of an A3C worker (agents/a3c.py, A3CThread)\<close>

text \<open>
  The image preprocessing and the network are parameters as well. The network maps a
  state and the recurrent state fed to it (\<open>None\<close>: not fed) to its output and the
  recurrent state it returns.
\<close>

record ('e, 'r, 'o, 'a, 'h) a3c_world = "('e, 'r, 'a) environment" +
  preprocess_image :: "'r \<Rightarrow> 'o"
  net_action :: "'o \<Rightarrow> 'h option \<Rightarrow> 'a \<times> 'h"
  net_value :: "'o \<Rightarrow> 'h option \<Rightarrow> real \<times> 'h"

text \<open>The attributes of the thread that the modelled methods read and write.\<close>

record ('e, 'h) a3c_thread =
  thread_env :: 'e
  thread_rnn_state :: "'h option"

text \<open>The dictionary that \<open>get_trajectory\<close> returns, one field for each key.\<close>

record ('o, 'a) trajectory =
  traj_reward :: "real list"
  traj_state :: "'o list"
  traj_action :: "'a list"
  traj_done :: bool
  traj_steps :: nat

text \<open>
  The local variables of \<open>get_trajectory\<close>. \<open>done\<close> and \<open>i\<close> are bound by the first
  pass through the loop body: \<open>None\<close> is the unbound variable.
\<close>

record ('e, 'o, 'a, 'h) collector =
  c_env :: 'e
  c_rnn_state :: "'h option"
  c_state :: 'o
  c_states :: "'o list"
  c_actions :: "'a list"
  c_rewards :: "real list"
  c_done :: "bool option"
  c_i :: "nat option"

text \<open>\<open>np.clip(a, a_min, a_max)\<close> on a scalar.\<close>

definition np_clip :: "real \<Rightarrow> real \<Rightarrow> real \<Rightarrow> real" where
  "np_clip a a_min a_max = min (max a a_min) a_max"

text \<open>
  \<^verbatim>\<open>
  for i in range(episode_max_length):
      action = self.choose_action(state)
      states.append(state)
      state, reward, done, _ = self.env.step(action)
      state = preprocess_image(state)
      reward = np.clip(reward, -1, 1)  # Clip reward
      actions.append(action)
      rewards.append(reward)
      if done:
          break
      if render:
          self.env.render()
  \<close>
  \<open>get_trajectory_body\<close> is the loop body down to \<open>rewards.append(reward)\<close>; the
  loop then reads the \<open>done\<close> that the body has just bound. Its first numeric argument
  counts the passes that remain, the second is \<open>i\<close>.
\<close>

definition get_trajectory_body ::
  "('e, 'r, 'o, 'a, 'h) a3c_world \<Rightarrow> nat \<Rightarrow>
   ('e, 'o, 'a, 'h) collector \<Rightarrow> ('e, 'o, 'a, 'h) collector" where
  "get_trajectory_body w i c =
     (let (action, h) = net_action w (c_state c) (c_rnn_state c);
          (e, raw, reward, done) = env_step w (c_env c) action
      in c\<lparr>c_env := e,
            c_rnn_state := Some h,
            c_state := preprocess_image w raw,
            c_states := c_states c @ [c_state c],
            c_actions := c_actions c @ [action],
            c_rewards := c_rewards c @ [np_clip reward (- 1) 1],
            c_done := Some done,
            c_i := Some i\<rparr>)"

fun get_trajectory_loop ::
  "('e, 'r, 'o, 'a, 'h) a3c_world \<Rightarrow> bool \<Rightarrow> nat \<Rightarrow> nat \<Rightarrow>
   ('e, 'o, 'a, 'h) collector \<Rightarrow> ('e, 'o, 'a, 'h) collector" where
  "get_trajectory_loop w render 0 i c = c"
| "get_trajectory_loop w render (Suc n) i c =
     (let c1 = get_trajectory_body w i c
      in if c_done c1 = Some True then c1
         else get_trajectory_loop w render n (Suc i)
                (if render then c1\<lparr>c_env := env_render w (c_env c1)\<rparr> else c1))"

text \<open>
  \<^verbatim>\<open>
  state = self.env.reset()
  state = preprocess_image(state)
  self.rnn_state = None
  states = []; actions = []; rewards = []
  for i in range(episode_max_length): ...
  return {"reward": np.array(rewards), "state": np.array(states), "action": np.array(actions),
          "done": done, "steps": i + 1}
  \<close>
  When the loop body never runs (\<open>episode_max_length \<le> 0\<close>), \<open>done\<close> and \<open>i\<close> are
  unbound at the \<open>return\<close>, which raises.
\<close>

definition get_trajectory ::
  "('e, 'r, 'o, 'a, 'h) a3c_world \<Rightarrow> int \<Rightarrow> bool \<Rightarrow> ('e, 'h) a3c_thread \<Rightarrow>
   error + (('o, 'a) trajectory \<times> ('e, 'h) a3c_thread)" where
  "get_trajectory w episode_max_length render self =
     (let (e, raw) = env_reset w (thread_env self);
          c = get_trajectory_loop w render (nat episode_max_length) 0
                \<lparr>c_env = e, c_rnn_state = None, c_state = preprocess_image w raw,
                 c_states = [], c_actions = [], c_rewards = [], c_done = None, c_i = None\<rparr>
      in case (c_done c, c_i c) of
           (Some done, Some i) \<Rightarrow>
             Inr (\<lparr>traj_reward = c_rewards c, traj_state = c_states c,
                   traj_action = c_actions c, traj_done = done, traj_steps = i + 1\<rparr>,
                  \<lparr>thread_env = c_env c, thread_rnn_state = c_rnn_state c\<rparr>)
         | _ \<Rightarrow> Inl UnboundLocalError)"









text \<open>
  An environment for the examples: the hidden state counts the steps since the reset,
  the observation is that count, every step pays the reward \<open>pay\<close>, and the episode
  ends at the step numbered \<open>horizon\<close>. The network always picks action 0 and values
  every state at \<open>1 / 2\<close>.
\<close>

definition example_world :: "real \<Rightarrow> nat \<Rightarrow> (nat, nat, nat, nat, unit) a3c_world" where
  "example_world pay horizon =
     \<lparr>env_reset = (\<lambda>e. (0, 0)),
      env_step = (\<lambda>e a. (Suc e, Suc e, pay, Suc e \<ge> horizon)),
      env_render = (\<lambda>e. e),
      preprocess_image = (\<lambda>r. r),
      net_action = (\<lambda>s h. (0, ())),
      net_value = (\<lambda>s h. (1 / 2, ()))\<rparr>"

definition example_thread :: "(nat, unit) a3c_thread" where
  "example_thread = \<lparr>thread_env = 0, thread_rnn_state = None\<rparr>"

section \<open>Environment runner (agents/env_runner.py, EnvRunner)\<close>

text \<open>
  Modelled from the spec: the class \<open>ExperiencesMemory\<close> (memory/experiences_memory.py)
  is not among the files. The spec says that
  \<open>add(state, action, reward, value?, terminal, features?)\<close> appends one record, that the
  memory exposes the ordered sequence of each recorded field, and that it has no
  removal operation. The memory is the list of its records, oldest first.
\<close>

record ('o, 'a, 'f) experience =
  exp_state :: 'o
  exp_action :: 'a
  exp_reward :: real
  exp_value :: "real option"
  exp_terminal :: bool
  exp_features :: "'f option"

type_synonym ('o, 'a, 'f) experiences_memory = "('o, 'a, 'f) experience list"

definition add ::
  "('o, 'a, 'f) experiences_memory \<Rightarrow> 'o \<Rightarrow> 'a \<Rightarrow> real \<Rightarrow> real option \<Rightarrow> bool \<Rightarrow> 'f option \<Rightarrow>
   ('o, 'a, 'f) experiences_memory" where
  "add memory state action reward value terminal features =
     memory @ [\<lparr>exp_state = state, exp_action = action, exp_reward = reward,
                exp_value = value, exp_terminal = terminal, exp_features = features\<rparr>]"

definition rewards :: "('o, 'a, 'f) experiences_memory \<Rightarrow> real list" where
  "rewards memory = map exp_reward memory"

definition terminals :: "('o, 'a, 'f) experiences_memory \<Rightarrow> bool list" where
  "terminals memory = map exp_terminal memory"

definition states :: "('o, 'a, 'f) experiences_memory \<Rightarrow> 'o list" where
  "states memory = map exp_state memory"

text \<open>
  The policy is a parameter of the runner, with a hidden state \<open>'p\<close> of its own.
  \<open>policy_choose_action\<close> returns the entries \<open>"action"\<close>, \<open>"value"\<close> and \<open>"features"\<close>
  of the result dictionary (\<open>None\<close>: the key is absent, which is what
  \<open>results.get(key, None)\<close> gives). \<open>summary_writer\<close> says whether a summary writer was
  given; what is written to it is not modelled.
\<close>

record ('e, 'o, 'a, 'p, 'f) runner_world = "('e, 'o, 'a) environment" +
  state_preprocessor :: "('o \<Rightarrow> 'o) option"
  policy_choose_action :: "'p \<Rightarrow> 'o \<Rightarrow> 'f option \<Rightarrow> ('a \<times> real option \<times> 'f option) \<times> 'p"
  policy_get_env_action :: "'a \<Rightarrow> 'a"
  policy_new_trajectory :: "'p \<Rightarrow> 'p"
  policy_initial_features :: "'f option"
  summary_writer :: bool

text \<open>The attributes of the runner that change, and the configuration dictionary.\<close>

record ('e, 'o, 'p, 'f) env_runner =
  env :: 'e
  policy :: 'p
  state :: 'o
  features :: "'f option"
  episode_steps :: int
  episode_reward :: real
  n_episodes :: int

text \<open>
  \<open>EnvRunner.__init__\<close> fills \<open>batch_update\<close>, \<open>episode_max_length\<close>,
  \<open>timesteps_per_batch\<close> and \<open>n_iter\<close> with defaults before it applies the
  configuration it is given, so these keys are always present;
  \<open>trajectories_per_batch\<close> is present only when the caller supplies it.
\<close>

record runner_config =
  batch_update :: string
  episode_max_length :: int
  timesteps_per_batch :: int
  n_iter :: int
  trajectories_per_batch :: "int option"

definition preprocess :: "('e, 'o, 'a, 'p, 'f) runner_world \<Rightarrow> 'o \<Rightarrow> 'o" where
  "preprocess w s = (case state_preprocessor w of None \<Rightarrow> s | Some f \<Rightarrow> f s)"

definition reset_env ::
  "('e, 'o, 'a, 'p, 'f) runner_world \<Rightarrow> ('e, 'o, 'p, 'f) env_runner \<Rightarrow> ('e, 'o, 'p, 'f) env_runner" where
  "reset_env w self =
     (let (e, s) = env_reset w (env self) in self\<lparr>env := e, state := preprocess w s\<rparr>)"

definition step_env ::
  "('e, 'o, 'a, 'p, 'f) runner_world \<Rightarrow> ('e, 'o, 'p, 'f) env_runner \<Rightarrow> 'a \<Rightarrow>
   ('e, 'o, 'p, 'f) env_runner \<times> 'o \<times> real \<times> bool" where
  "step_env w self action =
     (let (e, s, reward, done) = env_step w (env self) (policy_get_env_action w action)
      in (self\<lparr>env := e\<rparr>, preprocess w s, reward, done))"

text \<open>
  One pass through the body of the loop of \<open>get_steps\<close>, down to the end of the
  \<open>if done:\<close> block without its \<open>break\<close>; the third component is \<open>done\<close>.
  \<^verbatim>\<open>
  results = self.choose_action(self.state)
  action = results["action"]
  value = results.get("value", None)
  new_features = results.get("features", None)
  new_state, rew, done, _ = self.step_env(action)
  memory.add(self.state, action, rew, value, terminal=done, features=self.features)
  self.state = new_state
  self.features = new_features
  self.episode_reward += rew
  self.episode_steps += 1
  if done:
      if self.summary_writer is not None:
          ...
          self.episode_reward = 0
          self.episode_steps = 0
          self.n_episodes += 1
      self.reset_env()
      self.features = self.policy.initial_features
      self.policy.new_trajectory()
  \<close>
\<close>

definition get_steps_body ::
  "('e, 'o, 'a, 'p, 'f) runner_world \<Rightarrow> ('e, 'o, 'p, 'f) env_runner \<Rightarrow>
   ('o, 'a, 'f) experiences_memory \<Rightarrow>
   ('e, 'o, 'p, 'f) env_runner \<times> ('o, 'a, 'f) experiences_memory \<times> bool" where
  "get_steps_body w self memory =
     (let (results, p) = policy_choose_action w (policy self) (state self) (features self);
          (action, value, new_features) = results;
          (self1, new_state, rew, done) = step_env w (self\<lparr>policy := p\<rparr>) action;
          memory1 = add memory (state self) action rew value done (features self);
          self2 = self1\<lparr>state := new_state, features := new_features,
                       episode_reward := episode_reward self1 + rew,
                       episode_steps := episode_steps self1 + 1\<rparr>
      in if done then
           (let self3 = (if summary_writer w
                         then self2\<lparr>episode_reward := 0, episode_steps := 0,
                                     n_episodes := n_episodes self2 + 1\<rparr>
                         else self2);
                self4 = reset_env w self3;
                self5 = self4\<lparr>features := policy_initial_features w,
                              policy := policy_new_trajectory w (policy self4)\<rparr>
            in (self5, memory1, True))
         else (self2, memory1, False))"

text \<open>
  \<^verbatim>\<open>
  for _ in range(n_steps):
      ...
      if done:
          ...
          if stop_at_trajectory_end:
              break
      if render:
          self.env.render()
  return memory
  \<close>
\<close>

fun get_steps_loop ::
  "('e, 'o, 'a, 'p, 'f) runner_world \<Rightarrow> bool \<Rightarrow> bool \<Rightarrow> nat \<Rightarrow>
   ('e, 'o, 'p, 'f) env_runner \<Rightarrow> ('o, 'a, 'f) experiences_memory \<Rightarrow>
   ('e, 'o, 'p, 'f) env_runner \<times> ('o, 'a, 'f) experiences_memory" where
  "get_steps_loop w stop_at_trajectory_end render 0 self memory = (self, memory)"
| "get_steps_loop w stop_at_trajectory_end render (Suc n) self memory =
     (let (self1, memory1, done) = get_steps_body w self memory
      in if done \<and> stop_at_trajectory_end then (self1, memory1)
         else get_steps_loop w stop_at_trajectory_end render n
                (if render then self1\<lparr>env := env_render w (env self1)\<rparr> else self1) memory1)"

text \<open>
  \<^verbatim>\<open>
  def get_steps(self, n_steps, reset=False, stop_at_trajectory_end=True, render=False):
      if reset:
          self.reset_env()
          self.policy.new_trajectory()
      memory = ExperiencesMemory()
      for _ in range(n_steps): ...
  \<close>
\<close>

definition get_steps ::
  "('e, 'o, 'a, 'p, 'f) runner_world \<Rightarrow> int \<Rightarrow> bool \<Rightarrow> bool \<Rightarrow> bool \<Rightarrow>
   ('e, 'o, 'p, 'f) env_runner \<Rightarrow>
   ('e, 'o, 'p, 'f) env_runner \<times> ('o, 'a, 'f) experiences_memory" where
  "get_steps w n_steps reset stop_at_trajectory_end render self =
     (let self0 = (if reset
                   then (let self1 = reset_env w self
                         in self1\<lparr>policy := policy_new_trajectory w (policy self1)\<rparr>)
                   else self)
      in get_steps_loop w stop_at_trajectory_end render (nat n_steps) self0 [])"

text \<open>
  \<^verbatim>\<open>
  def get_trajectory(self, stop_at_trajectory_end=True, render=False):
      return self.get_steps(self.config["episode_max_length"], stop_at_trajectory_end, render)
  \<close>
  The three arguments are positional: they bind the first three parameters of
  \<open>get_steps\<close>, which are \<open>n_steps\<close>, \<open>reset\<close> and \<open>stop_at_trajectory_end\<close>; its
  fourth parameter \<open>render\<close> keeps its default \<open>False\<close>. (The method of \<open>A3CThread\<close>
  has the same name; this one is \<open>runner_get_trajectory\<close>.)
\<close>

definition runner_get_trajectory ::
  "('e, 'o, 'a, 'p, 'f) runner_world \<Rightarrow> runner_config \<Rightarrow> bool \<Rightarrow> bool \<Rightarrow>
   ('e, 'o, 'p, 'f) env_runner \<Rightarrow>
   ('e, 'o, 'p, 'f) env_runner \<times> ('o, 'a, 'f) experiences_memory" where
  "runner_get_trajectory w config stop_at_trajectory_end render self =
     get_steps w (episode_max_length config) stop_at_trajectory_end render False self"

text \<open>
  The condition of the \<open>while\<close> loop of \<open>get_trajectories\<close>, with Python's
  short-circuit evaluation: a key of the configuration is read only where the
  evaluation reaches it, and reading an absent key raises \<open>KeyError\<close>.
  \<^verbatim>\<open>
  while(use_timesteps and timesteps_total < self.config["timesteps_per_batch"]) or\
      (not(use_timesteps) and i < self.config["trajectories_per_batch"]):
  \<close>
\<close>

definition while_condition :: "runner_config \<Rightarrow> bool \<Rightarrow> int \<Rightarrow> int \<Rightarrow> error + bool" where
  "while_condition config use_timesteps timesteps_total i =
     (if use_timesteps \<and> timesteps_total < timesteps_per_batch config then Inr True
      else if \<not> use_timesteps
           then (case trajectories_per_batch config of
                   None \<Rightarrow> Inl KeyError
                 | Some k \<Rightarrow> Inr (i < k))
           else Inr False)"

text \<open>
  \<^verbatim>\<open>
  use_timesteps = self.config["batch_update"] == "timesteps"
  trajectories = []
  timesteps_total = 0
  i = 0
  while ...:
      i += 1
      trajectory = self.get_trajectory(stop_at_trajectory_end, render)
      trajectories.append(trajectory)
      timesteps_total += len(trajectory.rewards)
  return trajectories
  \<close>
  The loop may run forever (in the timesteps mode with trajectories of length zero), so
  it takes fuel: \<open>None\<close> is the loop that has not returned within the fuel.
\<close>

fun get_trajectories_loop ::
  "nat \<Rightarrow> ('e, 'o, 'a, 'p, 'f) runner_world \<Rightarrow> runner_config \<Rightarrow> bool \<Rightarrow> bool \<Rightarrow> bool \<Rightarrow>
   ('e, 'o, 'p, 'f) env_runner \<Rightarrow> ('o, 'a, 'f) experiences_memory list \<Rightarrow> int \<Rightarrow> int \<Rightarrow>
   (error + ('e, 'o, 'p, 'f) env_runner \<times> ('o, 'a, 'f) experiences_memory list) option" where
  "get_trajectories_loop 0 w config stop_at_trajectory_end render use_timesteps
     self trajectories timesteps_total i = None"
| "get_trajectories_loop (Suc fuel) w config stop_at_trajectory_end render use_timesteps
     self trajectories timesteps_total i =
     (case while_condition config use_timesteps timesteps_total i of
        Inl e \<Rightarrow> Some (Inl e)
      | Inr False \<Rightarrow> Some (Inr (self, trajectories))
      | Inr True \<Rightarrow>
          (let (self1, trajectory) = runner_get_trajectory w config stop_at_trajectory_end render self
           in get_trajectories_loop fuel w config stop_at_trajectory_end render use_timesteps
                self1 (trajectories @ [trajectory])
                (timesteps_total + int (length (rewards trajectory))) (i + 1)))"

definition get_trajectories ::
  "nat \<Rightarrow> ('e, 'o, 'a, 'p, 'f) runner_world \<Rightarrow> runner_config \<Rightarrow> bool \<Rightarrow> bool \<Rightarrow>
   ('e, 'o, 'p, 'f) env_runner \<Rightarrow>
   (error + ('e, 'o, 'p, 'f) env_runner \<times> ('o, 'a, 'f) experiences_memory list) option" where
  "get_trajectories fuel w config stop_at_trajectory_end render self =
     get_trajectories_loop fuel w config stop_at_trajectory_end render
       (batch_update config = ''timesteps'') self [] 0 0"

text \<open>The accumulated timestep total of a list of trajectories.\<close>

definition count_timesteps :: "('o, 'a, 'f) experiences_memory list \<Rightarrow> int" where
  "count_timesteps trajectories = (\<Sum>trajectory\<leftarrow>trajectories. int (length (rewards trajectory)))"

text \<open>
  A runner for the examples, on the same counting environment as above: every step
  pays \<open>pay\<close>, the episode ends at the step numbered \<open>horizon\<close>, the policy always
  picks action 0 and has no state, value or features, and there is neither a state
  preprocessor nor a summary writer.
\<close>

definition example_runner_world :: "real \<Rightarrow> nat \<Rightarrow> (nat, nat, nat, unit, unit) runner_world" where
  "example_runner_world pay horizon =
     \<lparr>env_reset = (\<lambda>e. (0, 0)),
      env_step = (\<lambda>e a. (Suc e, Suc e, pay, Suc e \<ge> horizon)),
      env_render = (\<lambda>e. e),
      state_preprocessor = None,
      policy_choose_action = (\<lambda>p s f. ((0, None, None), p)),
      policy_get_env_action = (\<lambda>a. a),
      policy_new_trajectory = (\<lambda>p. p),
      policy_initial_features = None,
      summary_writer = False\<rparr>"

definition example_runner :: "(nat, nat, unit, unit) env_runner" where
  "example_runner =
     \<lparr>env = 0, policy = (), state = 0, features = None,
      episode_steps = 0, episode_reward = 0, n_episodes = 0\<rparr>"

definition example_config :: "string \<Rightarrow> int \<Rightarrow> int \<Rightarrow> int option \<Rightarrow> runner_config" where
  "example_config mode max_length timesteps trajs =
     \<lparr>batch_update = mode, episode_max_length = max_length, timesteps_per_batch = timesteps,
      n_iter = 100, trajectories_per_batch = trajs\<rparr>"

section \<open>Discrete policy-gradient loss (agents/a3c.py, the two discrete networks)\<close>













section \<open>Worker loop and shutdown (agents/a3c.py, A3CThread.run, A3C.signal_handler, A3C.learn)\<close>

text \<open>
  The workers are threads that share the attributes \<open>T\<close> and \<open>stop_requested\<close> of the
  master and the variable \<open>global_step\<close>. The model is an interleaving of atomic moves:
  a move of one thread is one read or one write of a shared attribute, and the
  interpreter may switch threads between any two moves. The place of a thread in
  \<^verbatim>\<open>
  while self.master.T < self.config["T_max"] and not self.master.stop_requested:
      sess.run([self.ac_sync_net])
      trajectory = self.get_trajectory(self.config["episode_max_length"])
      ...
      results = sess.run(fetches, feed_dict=...)     # runs train_op: global_step += 1
      ...
      self.master.T += trajectory["steps"]
  \<close>
  is one of: \<open>Guard_T\<close>, about to evaluate the left operand of the guard; \<open>Guard_stop\<close>,
  the left operand was true and the right operand is evaluated next (\<open>and\<close> does not
  evaluate it otherwise); \<open>Body\<close>, in the body, before \<open>train_op\<close> has run;
  \<open>Add_load k\<close>, the body has run with a trajectory of \<open>k\<close> steps and the last line is
  about to read \<open>T\<close>; \<open>Add_store v\<close>, the last line is about to write \<open>v\<close> to \<open>T\<close>;
  \<open>Exited\<close>, \<open>run\<close> has returned, so that \<open>join\<close> on the thread returns.
\<close>

datatype place = Guard_T | Guard_stop | Body | Add_load nat | Add_store int | Exited

record master =
  T :: int
  stop_requested :: bool
  global_step :: int
  jobs :: "place list"

text \<open>
  An event is the delivery of the interrupt signal, whose handler is
  \<^verbatim>\<open>self.stop_requested = True\<close>, or one move of the thread with the given index; the
  second number of \<open>Move\<close> is the \<open>steps\<close> entry of the trajectory that the thread
  collects if the move runs the body (at least 1, see \<open>get_trajectory\<close>). \<open>step\<close> is
  \<open>None\<close> when the event cannot happen: the thread does not exist or has exited.
\<close>

datatype event = Sigint | Move nat nat

definition move :: "real \<Rightarrow> nat \<Rightarrow> nat \<Rightarrow> master \<Rightarrow> master option" where
  "move T_max i k s =
     (case jobs s ! i of
        Guard_T \<Rightarrow>
          Some (s\<lparr>jobs := (jobs s)[i := if real_of_int (T s) < T_max then Guard_stop else Exited]\<rparr>)
      | Guard_stop \<Rightarrow>
          Some (s\<lparr>jobs := (jobs s)[i := if \<not> stop_requested s then Body else Exited]\<rparr>)
      | Body \<Rightarrow>
          if 1 \<le> k
          then Some (s\<lparr>global_step := global_step s + 1, jobs := (jobs s)[i := Add_load k]\<rparr>)
          else None
      | Add_load n \<Rightarrow> Some (s\<lparr>jobs := (jobs s)[i := Add_store (T s + int n)]\<rparr>)
      | Add_store v \<Rightarrow> Some (s\<lparr>T := v, jobs := (jobs s)[i := Guard_T]\<rparr>)
      | Exited \<Rightarrow> None)"

fun step :: "real \<Rightarrow> event \<Rightarrow> master \<Rightarrow> master option" where
  "step T_max Sigint s = Some (s\<lparr>stop_requested := True\<rparr>)"
| "step T_max (Move i k) s = (if i < length (jobs s) then move T_max i k s else None)"

fun run_events :: "real \<Rightarrow> event list \<Rightarrow> master \<Rightarrow> master option" where
  "run_events T_max [] s = Some s"
| "run_events T_max (e # es) s =
     (case step T_max e s of None \<Rightarrow> None | Some s' \<Rightarrow> run_events T_max es s')"

text \<open>
  \<open>A3C.__init__\<close> sets \<open>T = 0\<close> and \<open>stop_requested = False\<close> and creates \<open>n_threads\<close>
  jobs; \<open>learn\<close> starts them and joins them all.
\<close>

definition initial :: "nat \<Rightarrow> master" where
  "initial n_threads =
     \<lparr>T = 0, stop_requested = False, global_step = 0, jobs = replicate n_threads Guard_T\<rparr>"

definition all_joined :: "master \<Rightarrow> bool" where
  "all_joined s = list_all (\<lambda>p. p = Exited) (jobs s)"

text \<open>The number of iterations in flight: threads that are in the body before its train step.\<close>

definition in_flight :: "master \<Rightarrow> nat" where
  "in_flight s = length (filter (\<lambda>p. p = Body) (jobs s))"

text \<open>
  The number of moves that a thread still makes at most once a shutdown has been
  requested.
\<close>

fun moves_left :: "place \<Rightarrow> nat" where
  "moves_left Exited = 0"
| "moves_left Guard_stop = 1"
| "moves_left Guard_T = 2"
| "moves_left (Add_store v) = 3"
| "moves_left (Add_load n) = 4"
| "moves_left Body = 5"

section \<open>Properties of the return computation\<close>

lemma lfilter_run_first_order:
  "lfilter_run [1] 1 [- g] xh yh xs = iir g (case yh of [] \<Rightarrow> 0 | y # _ \<Rightarrow> y) xs"
  by (induction xs arbitrary: xh yh) (simp_all add: dot_def Let_def split: list.splits)

lemma iir_length: "length (iir g p xs) = length xs"
  by (induction xs arbitrary: p) simp_all

lemma iir_snoc:
  "iir g p (xs @ [x]) =
     iir g p xs @ [x + g * (if xs = [] then p else last (iir g p xs))]"
proof (induction xs arbitrary: p)
  case Nil
  show ?case by simp
next
  case (Cons z zs)
  have "iir g (z + g * p) zs = [] \<longleftrightarrow> zs = []"
    using iir_length [of g "z + g * p" zs] by (metis length_0_conv)
  then show ?case using Cons by simp
qed

lemma discount_rewards_Inr: "discount_rewards x g = Inr (rev (iir g 0 (rev x)))"
  by (simp add: discount_rewards_def lfilter_def lfilter_run_first_order)

lemma returns_length: "length (backward_returns g rs) = length rs"
  by (induction g rs rule: backward_returns.induct) simp_all

lemma rev_iir_returns: "rev (iir g 0 (rev rs)) = backward_returns g rs"
proof (induction g rs rule: backward_returns.induct)
  case (1 g)
  show ?case by simp
next
  case (2 g r)
  show ?case by simp
next
  case (3 g r r' rs)
  let ?ys = "iir g 0 (rev (r' # rs))"
  have ne: "?ys \<noteq> []"
    using iir_length [of g 0 "rev (r' # rs)"] by (metis length_0_conv rev_is_Nil_conv list.distinct(1))
  have "iir g 0 (rev (r # r' # rs)) = ?ys @ [r + g * last ?ys]"
    using iir_snoc [of g 0 "rev (r' # rs)" r] by simp
  then have "rev (iir g 0 (rev (r # r' # rs))) = (r + g * last ?ys) # rev ?ys"
    by simp
  moreover have "last ?ys = hd (rev ?ys)"
    using ne by (simp add: hd_rev)
  ultimately show ?case using 3 by simp
qed

lemma returns_nth:
  "Suc i < length rs \<Longrightarrow> backward_returns g rs ! i = rs ! i + g * backward_returns g rs ! Suc i"
proof (induction g rs arbitrary: i rule: backward_returns.induct)
  case (1 g)
  then show ?case by simp
next
  case (2 g r)
  then show ?case by simp
next
  case (3 g r r' rs)
  have ne: "backward_returns g (r' # rs) \<noteq> []"
    using returns_length [of g "r' # rs"] by (metis length_0_conv list.distinct(1))
  show ?case
  proof (cases i)
    case 0
    then show ?thesis using ne by (simp add: hd_conv_nth)
  next
    case (Suc j)
    then have "Suc j < length (r' # rs)" using "3.prems" by simp
    from "3.IH" [OF this] show ?thesis using Suc by simp
  qed
qed

lemma returns_last: "rs \<noteq> [] \<Longrightarrow> last (backward_returns g rs) = last rs"
proof (induction g rs rule: backward_returns.induct)
  case (3 g r r' rs)
  have "backward_returns g (r' # rs) \<noteq> []"
    using returns_length [of g "r' # rs"] by (metis length_0_conv list.distinct(1))
  then show ?case using 3 by simp
qed simp_all

lemma returns_zero: "backward_returns 0 rs = rs"
  by (induction "0::real" rs rule: backward_returns.induct) simp_all

text \<open>
  C1. For every reward sequence \<open>R\<close> of length \<open>n\<close> and every discount factor \<open>\<gamma>\<close>
  (in particular every \<open>\<gamma>\<close> strictly between 0 and 1), \<open>discount_rewards\<close> returns a
  sequence \<open>G\<close> of length \<open>n\<close> with \<open>G[n-1] = R[n-1]\<close> and \<open>G[i] = R[i] + \<gamma> * G[i+1]\<close>
  for every \<open>i < n - 1\<close>. With \<open>\<gamma> = 0\<close> it returns \<open>R\<close>, and for \<open>R = [1, 1, 1]\<close>,
  \<open>\<gamma> = 0.9\<close> it returns \<open>[2.71, 1.9, 1.0]\<close>.
\<close>

theorem discount_rewards_recurrence:
  "(0 < \<gamma> \<and> \<gamma> < 1 \<longrightarrow>
      (\<exists>G. discount_rewards R \<gamma> = Inr G \<and> length G = length R
         \<and> (R \<noteq> [] \<longrightarrow> G ! (length R - 1) = R ! (length R - 1))
         \<and> (\<forall>i. i + 1 < length R \<longrightarrow> G ! i = R ! i + \<gamma> * G ! (i + 1))))
   \<and> discount_rewards R 0 = Inr R
   \<and> discount_rewards [1, 1, 1] (9 / 10) = Inr [271 / 100, 19 / 10, 1]"
proof -
  have eq: "discount_rewards R g = Inr (backward_returns g R)" for g
    by (simp add: discount_rewards_Inr rev_iir_returns)
  have len: "length (backward_returns \<gamma> R) = length R"
    by (rule returns_length)
  have lst: "backward_returns \<gamma> R ! (length R - 1) = R ! (length R - 1)" if "R \<noteq> []"
  proof -
    have ne: "backward_returns \<gamma> R \<noteq> []" using that len by (metis length_0_conv)
    have "last (backward_returns \<gamma> R) = backward_returns \<gamma> R ! (length R - 1)"
      using last_conv_nth [OF ne] len by simp
    moreover have "last R = R ! (length R - 1)"
      using last_conv_nth [OF that] by simp
    ultimately show ?thesis using returns_last [OF that, of \<gamma>] by simp
  qed
  have rec: "backward_returns \<gamma> R ! i = R ! i + \<gamma> * backward_returns \<gamma> R ! (i + 1)" if "i + 1 < length R" for i
    using returns_nth [of i R \<gamma>] that by simp
  have ex: "discount_rewards [1, 1, 1] (9 / 10) = Inr [271 / 100, 19 / 10, 1]"
    by (simp add: discount_rewards_Inr)
  show ?thesis
    using eq len lst rec ex by (simp add: returns_zero)
qed

theorem discount_rewards_recurrence_witness:
  "(0::real) < 1 / 2 \<and> (1::real) / 2 < 1
   \<and> discount_rewards [4, 2] (1 / 2) = Inr [5, 2]
   \<and> (\<exists>G. discount_rewards [4, 2] (1 / 2) = Inr G \<and> length G = 2
         \<and> G ! 1 = 2 \<and> G ! 0 = 4 + (1 / 2) * G ! 1)"
proof -
  have v: "discount_rewards [4, 2] (1 / 2) = Inr [5, 2]"
    by (simp add: discount_rewards_Inr)
  have "(0::real) < 1 / 2 \<and> (1::real) / 2 < 1" by simp
  with discount_rewards_recurrence [of "1 / 2" "[4, 2]"]
  obtain G where g: "discount_rewards [4, 2] (1 / 2) = Inr G" "length G = 2"
      "G ! 1 = 2" "\<forall>i. i + 1 < 2 \<longrightarrow> G ! i = [4, 2] ! i + (1 / 2) * G ! (i + 1)"
    by auto
  from g(4) have "G ! 0 = [4, 2] ! 0 + (1 / 2) * G ! (0 + 1)" by simp
  then have "G ! 0 = 4 + (1 / 2) * G ! 1" by simp
  with g v show ?thesis by auto
qed

text \<open>
  C8. Applied to the empty reward sequence, \<open>discount_rewards\<close> returns the empty
  sequence and does not raise, whatever the discount factor is.
\<close>

theorem discount_rewards_empty:
  "discount_rewards [] \<gamma> = Inr [] \<and> (\<exists>G. discount_rewards [] \<gamma> = Inr G \<and> length G = 0)"
  by (simp add: discount_rewards_def lfilter_def)

section \<open>Properties of gradient clipping\<close>

lemma clip_by_value_bounds:
  "0 \<le> B \<Longrightarrow> x \<in> set (clip_by_value t (- B) B) \<Longrightarrow> - B \<le> x \<and> x \<le> B"
  by (auto simp: clip_by_value_def)

text \<open>
  C4. When gradient clipping is enabled with a bound \<open>B \<ge> 0\<close>
  (\<open>gradient_clip_value\<close>), every component of every gradient tensor handed to
  \<open>apply_gradients\<close> for the shared variables lies in the closed interval \<open>[-B, B]\<close>;
  when clipping is disabled the gradients are handed over unmodified.
\<close>

theorem clipped_gradients_bounded:
  "(0 \<le> B \<longrightarrow>
      (\<forall>gv \<in> set (train_op_grads_and_vars True B grads shared_vars).
         \<forall>x \<in> set (fst gv). - B \<le> x \<and> x \<le> B))
   \<and> processed_grads False B grads = grads
   \<and> train_op_grads_and_vars False B grads shared_vars = zip grads shared_vars"
proof -
  have "- B \<le> x \<and> x \<le> B"
    if "0 \<le> B" "gv \<in> set (train_op_grads_and_vars True B grads shared_vars)" "x \<in> set (fst gv)"
    for gv x
  proof -
    from that(2) have "fst gv \<in> set (processed_grads True B grads)"
      unfolding train_op_grads_and_vars_def by (metis prod.collapse set_zip_leftD)
    then obtain g where "fst gv = clip_by_value g (- B) B"
      by (auto simp: processed_grads_def)
    with that(1,3) show ?thesis using clip_by_value_bounds by metis
  qed
  then show ?thesis
    by (simp add: processed_grads_def train_op_grads_and_vars_def)
qed

theorem clipped_gradients_bounded_witness:
  "(0::real) \<le> 40
   \<and> train_op_grads_and_vars True 40 [[100, - 3], [- 41]] [''w'', ''b'']
       = [([40, - 3], ''w''), ([- 40], ''b'')]
   \<and> list_all (\<lambda>gv. list_all (\<lambda>x. - 40 \<le> x \<and> x \<le> 40) (fst gv))
         (train_op_grads_and_vars True 40 [[100, - 3], [- 41]] [''w'', ''b''])"
proof -
  have h: "(0::real) \<le> 40" by simp
  have v: "train_op_grads_and_vars True 40 [[100, - 3], [- 41]] [''w'', ''b'']
       = [([40, - 3], ''w''), ([- 40], ''b'')]"
    by (simp add: train_op_grads_and_vars_def processed_grads_def clip_by_value_def)
  from clipped_gradients_bounded [of 40 "[[100, - 3], [- 41]]" "[''w'', ''b'']"] h
  have "\<forall>gv \<in> set (train_op_grads_and_vars True 40 [[100, - 3], [- 41]] [''w'', ''b'']).
         \<forall>x \<in> set (fst gv). - 40 \<le> x \<and> x \<le> 40"
    by blast
  then have "list_all (\<lambda>gv. list_all (\<lambda>x. - 40 \<le> x \<and> x \<le> 40) (fst gv))
         (train_op_grads_and_vars True 40 [[100, - 3], [- 41]] [''w'', ''b''])"
    unfolding list_all_iff by blast
  with h v show ?thesis by blast
qed

section \<open>Properties of the soft update\<close>

lemma soft_update_loop_snoc:
  "soft_update_loop (ps @ [(a, b)]) tau st =
     (soft_update_loop ps tau st)
       (b := (1 - tau) *\<^sub>R soft_update_loop ps tau st b + tau *\<^sub>R soft_update_loop ps tau st a)"
proof (induction ps arbitrary: st)
  case Nil
  show ?case by simp
next
  case (Cons p ps)
  obtain s t where p: "p = (s, t)" by (cases p)
  show ?case unfolding p append_Cons soft_update_loop.simps by (rule Cons.IH)
qed

lemma soft_update_loop_untouched:
  "v \<notin> snd ` set ps \<Longrightarrow> soft_update_loop ps tau st v = st v"
  by (induction ps tau st rule: soft_update_loop.induct) auto

lemma soft_update_loop_distinct:
  "length ss = length ts \<Longrightarrow> distinct ts \<Longrightarrow> set ss \<inter> set ts = {} \<Longrightarrow> i < length ts \<Longrightarrow>
   soft_update_loop (zip ss ts) tau st (ts ! i) = (1 - tau) *\<^sub>R st (ts ! i) + tau *\<^sub>R st (ss ! i)"
proof (induction ss ts arbitrary: st i rule: list_induct2)
  case Nil
  then show ?case by simp
next
  case (Cons s ss t ts)
  let ?st = "st(t := (1 - tau) *\<^sub>R st t + tau *\<^sub>R st s)"
  show ?case
  proof (cases i)
    case 0
    have "t \<notin> snd ` set (zip ss ts)"
      using Cons.prems(1) by (auto dest: set_zip_rightD)
    then have "soft_update_loop (zip ss ts) tau ?st t = ?st t"
      by (rule soft_update_loop_untouched)
    then show ?thesis using 0 by simp
  next
    case (Suc j)
    then have j: "j < length ts" using Cons.prems(3) by simp
    have d: "distinct ts" "set ss \<inter> set ts = {}" using Cons.prems by auto
    have n1: "ts ! j \<noteq> t" using Cons.prems(1) j by auto
    have "ss ! j \<in> set ss" using j Cons.hyps by simp
    then have n2: "ss ! j \<noteq> t" using Cons.prems(2) by auto
    have "soft_update_loop (zip ss ts) tau ?st (ts ! j)
            = (1 - tau) *\<^sub>R ?st (ts ! j) + tau *\<^sub>R ?st (ss ! j)"
      by (rule Cons.IH [OF d j])
    also have "\<dots> = (1 - tau) *\<^sub>R st (ts ! j) + tau *\<^sub>R st (ss ! j)"
      using n1 n2 by simp
    finally show ?thesis using Suc by simp
  qed
qed

text \<open>
  C10. \<open>soft_update\<close> raises \<open>ValueError\<close> if and only if the two variable sequences
  differ in length, and then the store is unchanged (the check precedes every
  assignment). When the lengths are equal it does not raise, and its \<open>i\<close>-th
  assignment stores \<open>(1 - tau) * target[i] + tau * source[i]\<close> into \<open>target[i]\<close>,
  computed from the values that the variables hold at that moment; when the target
  variables are pairwise distinct and none of them is a source variable, every target
  ends with \<open>(1 - tau) * target[i] + tau * source[i]\<close> of the values before the call.
\<close>

theorem soft_update_spec:
  "(fst (soft_update source_vars target_vars tau st) = Some ValueError
      \<longleftrightarrow> length source_vars \<noteq> length target_vars)
   \<and> (length source_vars \<noteq> length target_vars \<longrightarrow>
        snd (soft_update source_vars target_vars tau st) = st)
   \<and> (length source_vars = length target_vars \<longrightarrow>
        fst (soft_update source_vars target_vars tau st) = None
        \<and> (\<forall>i < length target_vars.
              snd (soft_update (take (Suc i) source_vars) (take (Suc i) target_vars) tau st) =
                (let before = snd (soft_update (take i source_vars) (take i target_vars) tau st)
                 in before (target_vars ! i :=
                      (1 - tau) *\<^sub>R before (target_vars ! i) + tau *\<^sub>R before (source_vars ! i))))
        \<and> (distinct target_vars \<and> set source_vars \<inter> set target_vars = {} \<longrightarrow>
             (\<forall>i < length target_vars.
                snd (soft_update source_vars target_vars tau st) (target_vars ! i) =
                  (1 - tau) *\<^sub>R st (target_vars ! i) + tau *\<^sub>R st (source_vars ! i))))"
proof -
  have step: "snd (soft_update (take (Suc i) source_vars) (take (Suc i) target_vars) tau st) =
                (let before = snd (soft_update (take i source_vars) (take i target_vars) tau st)
                 in before (target_vars ! i :=
                      (1 - tau) *\<^sub>R before (target_vars ! i) + tau *\<^sub>R before (source_vars ! i)))"
    if eq: "length source_vars = length target_vars" and i: "i < length target_vars" for i
  proof -
    have "take (Suc i) (zip source_vars target_vars)
            = take i (zip source_vars target_vars) @ [(source_vars ! i, target_vars ! i)]"
      using eq i by (simp add: take_Suc_conv_app_nth)
    then have "zip (take (Suc i) source_vars) (take (Suc i) target_vars)
            = zip (take i source_vars) (take i target_vars) @ [(source_vars ! i, target_vars ! i)]"
      by (simp add: take_zip)
    then show ?thesis
      using eq i by (simp add: soft_update_def soft_update_loop_snoc Let_def)
  qed
  have closed: "snd (soft_update source_vars target_vars tau st) (target_vars ! i) =
                  (1 - tau) *\<^sub>R st (target_vars ! i) + tau *\<^sub>R st (source_vars ! i)"
    if "length source_vars = length target_vars" "distinct target_vars"
       "set source_vars \<inter> set target_vars = {}" "i < length target_vars" for i
    using soft_update_loop_distinct [OF that] that(1) by (simp add: soft_update_def)
  show ?thesis
    using step closed by (simp add: soft_update_def)
qed

theorem soft_update_spec_witness:
  "length [0::nat, 1] = length [2::nat, 3] \<and> distinct [2::nat, 3] \<and> set [0::nat, 1] \<inter> set [2, 3] = {}
   \<and> fst (soft_update [0, 1] [2, 3] (1 / 4) (\<lambda>v. real v)) = None
   \<and> snd (soft_update [0, 1] [2, 3] (1 / 4) (\<lambda>v. real v)) 2 = 3 / 2
   \<and> snd (soft_update [0, 1] [2, 3] (1 / 4) (\<lambda>v. real v)) 3 = 5 / 2
   \<and> length [0::nat] \<noteq> length [2::nat, 3]
   \<and> soft_update [0] [2, 3] (1 / 4) (\<lambda>v. real v) = (Some ValueError, \<lambda>v. real v)"
proof -
  have h: "length [0::nat, 1] = length [2::nat, 3]" "distinct [2::nat, 3]"
      "set [0::nat, 1] \<inter> set [2, 3] = {}" "length [0::nat] \<noteq> length [2::nat, 3]"
    by simp_all
  note t = soft_update_spec [of "[0, 1]" "[2, 3]" "1 / 4" "\<lambda>v. real v"]
  from t h have a: "fst (soft_update [0, 1] [2, 3] (1 / 4) (\<lambda>v. real v)) = None" by blast
  from t h have c: "\<forall>i < length [2::nat, 3].
       snd (soft_update [0, 1] [2, 3] (1 / 4) (\<lambda>v. real v)) ([2, 3] ! i) =
         (1 - 1 / 4) *\<^sub>R real ([2, 3] ! i) + (1 / 4) *\<^sub>R real ([0, 1] ! i)" by blast
  from c have "snd (soft_update [0, 1] [2, 3] (1 / 4) (\<lambda>v. real v)) ([2, 3] ! 0) =
         (1 - 1 / 4) *\<^sub>R real ([2, 3] ! 0) + (1 / 4) *\<^sub>R real ([0, 1] ! 0)"
    by (metis length_greater_0_conv list.distinct(1))
  then have b2: "snd (soft_update [0, 1] [2, 3] (1 / 4) (\<lambda>v. real v)) 2 = 3 / 2" by simp
  have "(1::nat) < length [2::nat, 3]" by simp
  with c have "snd (soft_update [0, 1] [2, 3] (1 / 4) (\<lambda>v. real v)) ([2, 3] ! 1) =
         (1 - 1 / 4) *\<^sub>R real ([2, 3] ! 1) + (1 / 4) *\<^sub>R real ([0, 1] ! 1)" by blast
  then have b3: "snd (soft_update [0, 1] [2, 3] (1 / 4) (\<lambda>v. real v)) 3 = 5 / 2" by simp
  from soft_update_spec [of "[0]" "[2, 3]" "1 / 4" "\<lambda>v. real v"] h(4)
  have e: "fst (soft_update [0] [2, 3] (1 / 4) (\<lambda>v. real v)) = Some ValueError"
    "snd (soft_update [0] [2, 3] (1 / 4) (\<lambda>v. real v)) = (\<lambda>v. real v)" by blast+
  then have "soft_update [0] [2, 3] (1 / 4) (\<lambda>v. real v) = (Some ValueError, \<lambda>v. real v)"
    by (metis prod.collapse)
  with h a b2 b3 show ?thesis by blast
qed

section \<open>Properties of the trajectory collection of an A3C worker\<close>

lemma np_clip_bounds: "- 1 \<le> np_clip x (- 1) 1 \<and> np_clip x (- 1) 1 \<le> 1"
  by (simp add: np_clip_def)

lemma get_trajectory_body_fields:
  "c_rewards (get_trajectory_body w i c) =
     c_rewards c @ [np_clip (fst (snd (snd (env_step w (c_env c)
        (fst (net_action w (c_state c) (c_rnn_state c))))))) (- 1) 1]"
  "c_states (get_trajectory_body w i c) = c_states c @ [c_state c]"
  "c_done (get_trajectory_body w i c) \<noteq> None"
  "c_i (get_trajectory_body w i c) = Some i"
  by (simp_all add: get_trajectory_body_def Let_def split_beta)

lemma get_trajectory_loop_Suc:
  "get_trajectory_loop w render (Suc n) i c = get_trajectory_body w i c
   \<or> (\<exists>c1. c_rewards c1 = c_rewards (get_trajectory_body w i c)
          \<and> c_states c1 = c_states (get_trajectory_body w i c)
          \<and> get_trajectory_loop w render (Suc n) i c = get_trajectory_loop w render n (Suc i) c1)"
proof (cases "c_done (get_trajectory_body w i c) = Some True")
  case True
  then show ?thesis by (simp add: Let_def)
next
  case False
  show ?thesis
  proof (cases render)
    case True
    let ?c1 = "(get_trajectory_body w i c)\<lparr>c_env := env_render w (c_env (get_trajectory_body w i c))\<rparr>"
    have "get_trajectory_loop w render (Suc n) i c = get_trajectory_loop w render n (Suc i) ?c1"
      using False True by (simp add: Let_def)
    moreover have "c_rewards ?c1 = c_rewards (get_trajectory_body w i c)"
      "c_states ?c1 = c_states (get_trajectory_body w i c)" by simp_all
    ultimately show ?thesis by blast
  next
    case nr: False
    have "get_trajectory_loop w render (Suc n) i c
            = get_trajectory_loop w render n (Suc i) (get_trajectory_body w i c)"
      using False nr by (simp add: Let_def)
    then show ?thesis by blast
  qed
qed

lemma get_trajectory_loop_rewards:
  "\<forall>r \<in> set (c_rewards c). - 1 \<le> r \<and> r \<le> 1 \<Longrightarrow>
   \<forall>r \<in> set (c_rewards (get_trajectory_loop w render n i c)). - 1 \<le> r \<and> r \<le> 1"
proof (induction n arbitrary: i c)
  case 0
  then show ?case by simp
next
  case (Suc n)
  have b: "\<forall>r \<in> set (c_rewards (get_trajectory_body w i c)). - 1 \<le> r \<and> r \<le> 1"
    using Suc.prems np_clip_bounds by (auto simp: get_trajectory_body_fields(1))
  from get_trajectory_loop_Suc [of w render n i c] show ?case
  proof
    assume "get_trajectory_loop w render (Suc n) i c = get_trajectory_body w i c"
    with b show ?thesis by simp
  next
    assume "\<exists>c1. c_rewards c1 = c_rewards (get_trajectory_body w i c)
          \<and> c_states c1 = c_states (get_trajectory_body w i c)
          \<and> get_trajectory_loop w render (Suc n) i c = get_trajectory_loop w render n (Suc i) c1"
    then obtain c1 where c1: "c_rewards c1 = c_rewards (get_trajectory_body w i c)"
        "get_trajectory_loop w render (Suc n) i c = get_trajectory_loop w render n (Suc i) c1"
      by blast
    have "\<forall>r \<in> set (c_rewards c1). - 1 \<le> r \<and> r \<le> 1" using b c1(1) by simp
    from Suc.IH [OF this] show ?thesis using c1(2) by simp
  qed
qed

lemma get_trajectory_loop_lengths:
  "length (c_states c) = length (c_rewards c) \<Longrightarrow>
   length (c_states (get_trajectory_loop w render n i c))
     = length (c_rewards (get_trajectory_loop w render n i c))"
proof (induction n arbitrary: i c)
  case 0
  then show ?case by simp
next
  case (Suc n)
  have b: "length (c_states (get_trajectory_body w i c))
             = length (c_rewards (get_trajectory_body w i c))"
    using Suc.prems by (simp add: get_trajectory_body_fields(1,2))
  from get_trajectory_loop_Suc [of w render n i c] show ?case
  proof
    assume "get_trajectory_loop w render (Suc n) i c = get_trajectory_body w i c"
    with b show ?thesis by simp
  next
    assume "\<exists>c1. c_rewards c1 = c_rewards (get_trajectory_body w i c)
          \<and> c_states c1 = c_states (get_trajectory_body w i c)
          \<and> get_trajectory_loop w render (Suc n) i c = get_trajectory_loop w render n (Suc i) c1"
    then obtain c1 where c1: "c_rewards c1 = c_rewards (get_trajectory_body w i c)"
        "c_states c1 = c_states (get_trajectory_body w i c)"
        "get_trajectory_loop w render (Suc n) i c = get_trajectory_loop w render n (Suc i) c1"
      by blast
    have "length (c_states c1) = length (c_rewards c1)" using b c1(1,2) by simp
    from Suc.IH [OF this] show ?thesis using c1(3) by simp
  qed
qed

lemma get_trajectory_loop_keeps_rewards:
  "c_rewards c \<noteq> [] \<Longrightarrow> c_rewards (get_trajectory_loop w render n i c) \<noteq> []"
proof (induction n arbitrary: i c)
  case 0
  then show ?case by simp
next
  case (Suc n)
  have b: "c_rewards (get_trajectory_body w i c) \<noteq> []"
    by (simp add: get_trajectory_body_fields(1))
  from get_trajectory_loop_Suc [of w render n i c] show ?case
  proof
    assume "get_trajectory_loop w render (Suc n) i c = get_trajectory_body w i c"
    with b show ?thesis by simp
  next
    assume "\<exists>c1. c_rewards c1 = c_rewards (get_trajectory_body w i c)
          \<and> c_states c1 = c_states (get_trajectory_body w i c)
          \<and> get_trajectory_loop w render (Suc n) i c = get_trajectory_loop w render n (Suc i) c1"
    then obtain c1 where c1: "c_rewards c1 = c_rewards (get_trajectory_body w i c)"
        "get_trajectory_loop w render (Suc n) i c = get_trajectory_loop w render n (Suc i) c1"
      by blast
    have "c_rewards c1 \<noteq> []" using b c1(1) by simp
    from Suc.IH [OF this] show ?thesis using c1(2) by simp
  qed
qed

lemma get_trajectory_loop_nonempty:
  "0 < n \<Longrightarrow> c_rewards (get_trajectory_loop w render n i c) \<noteq> []"
proof -
  assume "0 < n"
  then obtain m where m: "n = Suc m" by (cases n) simp_all
  have b: "c_rewards (get_trajectory_body w i c) \<noteq> []"
    by (simp add: get_trajectory_body_fields(1))
  from get_trajectory_loop_Suc [of w render m i c] show ?thesis
  proof
    assume "get_trajectory_loop w render (Suc m) i c = get_trajectory_body w i c"
    with b m show ?thesis by simp
  next
    assume "\<exists>c1. c_rewards c1 = c_rewards (get_trajectory_body w i c)
          \<and> c_states c1 = c_states (get_trajectory_body w i c)
          \<and> get_trajectory_loop w render (Suc m) i c = get_trajectory_loop w render m (Suc i) c1"
    then obtain c1 where c1: "c_rewards c1 = c_rewards (get_trajectory_body w i c)"
        "get_trajectory_loop w render (Suc m) i c = get_trajectory_loop w render m (Suc i) c1"
      by blast
    have "c_rewards c1 \<noteq> []" using b c1(1) by simp
    from get_trajectory_loop_keeps_rewards [OF this] show ?thesis using c1(2) m by simp
  qed
qed

lemma get_trajectory_shape:
  assumes "get_trajectory w max_length render self = Inr (trajectory, self1)"
  shows "traj_reward trajectory \<noteq> []"
    and "length (traj_state trajectory) = length (traj_reward trajectory)"
    and "\<forall>r \<in> set (traj_reward trajectory). - 1 \<le> r \<and> r \<le> 1"
proof -
  obtain e raw where r: "env_reset w (thread_env self) = (e, raw)"
    by (cases "env_reset w (thread_env self)")
  let ?c0 = "\<lparr>c_env = e, c_rnn_state = None, c_state = preprocess_image w raw,
              c_states = [], c_actions = [], c_rewards = ([]::real list),
              c_done = None, c_i = None\<rparr>"
  let ?c = "get_trajectory_loop w render (nat max_length) 0 ?c0"
  from assms have *: "(case (c_done ?c, c_i ?c) of
           (Some done, Some i) \<Rightarrow>
             Inr (\<lparr>traj_reward = c_rewards ?c, traj_state = c_states ?c,
                   traj_action = c_actions ?c, traj_done = done, traj_steps = i + 1\<rparr>,
                  \<lparr>thread_env = c_env ?c, thread_rnn_state = c_rnn_state ?c\<rparr>)
         | _ \<Rightarrow> Inl UnboundLocalError) = Inr (trajectory, self1)"
    unfolding get_trajectory_def r Let_def by simp
  obtain d j where dj: "c_done ?c = Some d" "c_i ?c = Some j"
    using * by (cases "c_done ?c"; cases "c_i ?c") simp_all
  have res: "c_done ?c \<noteq> None" "traj_reward trajectory = c_rewards ?c"
      "traj_state trajectory = c_states ?c"
    using * dj by auto
  have "0 < nat max_length"
  proof (rule ccontr)
    assume "\<not> 0 < nat max_length"
    then have z: "nat max_length = 0" by simp
    have "c_done ?c = None" unfolding z by simp
    with res(1) show False by simp
  qed
  then have "c_rewards ?c \<noteq> []" by (rule get_trajectory_loop_nonempty)
  then show "traj_reward trajectory \<noteq> []" using res(2) by simp
  have "length (c_states ?c) = length (c_rewards ?c)"
    by (rule get_trajectory_loop_lengths) simp
  then show "length (traj_state trajectory) = length (traj_reward trajectory)"
    using res(2,3) by simp
  have "\<forall>r \<in> set (c_rewards ?c). - 1 \<le> r \<and> r \<le> 1"
    by (rule get_trajectory_loop_rewards) simp
  then show "\<forall>r \<in> set (traj_reward trajectory). - 1 \<le> r \<and> r \<le> 1"
    using res(2) by simp
qed



lemma example_get_trajectory:
  "get_trajectory (example_world 5 2) 10 False example_thread =
     Inr (\<lparr>traj_reward = [1, 1], traj_state = [0, 1], traj_action = [0, 0],
           traj_done = True, traj_steps = 2\<rparr>,
          \<lparr>thread_env = 2, thread_rnn_state = Some ()\<rparr>)"
  by (simp add: get_trajectory_def example_world_def example_thread_def get_trajectory_body_def np_clip_def Let_def
        eval_nat_numeral)






section \<open>Properties of the environment runner\<close>

lemma get_steps_body_memory:
  "fst (snd (get_steps_body w self memory)) =
     memory @ [\<lparr>exp_state = state self,
                exp_action = fst (fst (policy_choose_action w (policy self) (state self) (features self))),
                exp_reward = fst (snd (snd (env_step w (env self)
                  (policy_get_env_action w
                     (fst (fst (policy_choose_action w (policy self) (state self) (features self)))))))),
                exp_value = fst (snd (fst (policy_choose_action w (policy self) (state self) (features self)))),
                exp_terminal = snd (snd (get_steps_body w self memory)),
                exp_features = features self\<rparr>]"
  by (simp add: get_steps_body_def step_env_def add_def Let_def split_beta)

lemma get_steps_loop_unfold:
  "get_steps_loop w stop render (Suc n) self memory =
     (if snd (snd (get_steps_body w self memory)) \<and> stop
      then (fst (get_steps_body w self memory), fst (snd (get_steps_body w self memory)))
      else get_steps_loop w stop render n
             (if render then (fst (get_steps_body w self memory))
                               \<lparr>env := env_render w (env (fst (get_steps_body w self memory)))\<rparr>
              else fst (get_steps_body w self memory))
             (fst (snd (get_steps_body w self memory))))"
  by (simp add: split_beta)

declare get_steps_loop.simps(2) [simp del]

lemma get_steps_loop_Suc:
  "(stop \<and> get_steps_loop w stop render (Suc n) self memory =
      (fst (get_steps_body w self memory), fst (snd (get_steps_body w self memory))))
   \<or> (\<exists>self'. get_steps_loop w stop render (Suc n) self memory =
         get_steps_loop w stop render n self' (fst (snd (get_steps_body w self memory))))"
proof (cases "snd (snd (get_steps_body w self memory)) \<and> stop")
  case True
  then show ?thesis by (subst get_steps_loop_unfold) simp
next
  case False
  have "get_steps_loop w stop render (Suc n) self memory =
      get_steps_loop w stop render n
        (if render then (fst (get_steps_body w self memory))
                          \<lparr>env := env_render w (env (fst (get_steps_body w self memory)))\<rparr>
         else fst (get_steps_body w self memory))
        (fst (snd (get_steps_body w self memory)))"
    by (subst get_steps_loop_unfold) (rule if_not_P [OF False])
  then show ?thesis by blast
qed

lemma get_steps_loop_memory:
  "\<exists>new. snd (get_steps_loop w stop render n self memory) = memory @ new
         \<and> length new \<le> n \<and> (0 < n \<longrightarrow> new \<noteq> []) \<and> (\<not> stop \<longrightarrow> length new = n)"
proof (induction n arbitrary: self memory)
  case 0
  show ?case by simp
next
  case (Suc n)
  obtain x where x: "fst (snd (get_steps_body w self memory)) = memory @ [x]"
    using get_steps_body_memory by blast
  from get_steps_loop_Suc [of stop w render n self memory] show ?case
  proof
    assume "stop \<and> get_steps_loop w stop render (Suc n) self memory =
      (fst (get_steps_body w self memory), fst (snd (get_steps_body w self memory)))"
    then have e: "get_steps_loop w stop render (Suc n) self memory =
      (fst (get_steps_body w self memory), fst (snd (get_steps_body w self memory)))" and st: stop
      by blast+
    have "snd (get_steps_loop w stop render (Suc n) self memory) = memory @ [x]"
      unfolding e using x by simp
    moreover have "length [x] \<le> Suc n" "[x] \<noteq> []" by simp_all
    ultimately show ?thesis using st by blast
  next
    assume "\<exists>self'. get_steps_loop w stop render (Suc n) self memory =
         get_steps_loop w stop render n self' (fst (snd (get_steps_body w self memory)))"
    then obtain self' where s: "get_steps_loop w stop render (Suc n) self memory =
         get_steps_loop w stop render n self' (memory @ [x])"
      using x by auto
    obtain new where new: "snd (get_steps_loop w stop render n self' (memory @ [x])) = (memory @ [x]) @ new"
        "length new \<le> n" "\<not> stop \<longrightarrow> length new = n"
      using Suc.IH [of self' "memory @ [x]"] by blast
    have "snd (get_steps_loop w stop render (Suc n) self memory) = memory @ (x # new)"
      using s new(1) by simp
    moreover have "length (x # new) \<le> Suc n" "x # new \<noteq> []" "\<not> stop \<longrightarrow> length (x # new) = Suc n"
      using new(2,3) by simp_all
    ultimately show ?thesis by blast
  qed
qed

lemma get_steps_loop_length:
  "length (snd (get_steps_loop w stop render n self0 [])) \<le> n
   \<and> (0 < n \<longrightarrow> snd (get_steps_loop w stop render n self0 []) \<noteq> [])
   \<and> (\<not> stop \<longrightarrow> length (snd (get_steps_loop w stop render n self0 [])) = n)"
  using get_steps_loop_memory [of w stop render n self0 "[]"] by simp

lemma get_steps_length:
  "length (snd (get_steps w n_steps reset stop render self)) \<le> nat n_steps
   \<and> (0 < nat n_steps \<longrightarrow> snd (get_steps w n_steps reset stop render self) \<noteq> [])
   \<and> (\<not> stop \<longrightarrow> length (snd (get_steps w n_steps reset stop render self)) = nat n_steps)"
  unfolding get_steps_def Let_def by (rule get_steps_loop_length)

lemma runner_get_trajectory_nonempty:
  "1 \<le> episode_max_length config \<Longrightarrow>
   1 \<le> int (length (rewards (snd (runner_get_trajectory w config a b self))))"
proof -
  assume "1 \<le> episode_max_length config"
  then have "0 < nat (episode_max_length config)" by simp
  then have "snd (get_steps w (episode_max_length config) a b False self) \<noteq> []"
    using get_steps_length [of w "episode_max_length config" a b False self] by simp
  then have "snd (runner_get_trajectory w config a b self) \<noteq> []"
    by (simp add: runner_get_trajectory_def)
  then show ?thesis
    by (cases "snd (runner_get_trajectory w config a b self)") (simp_all add: rewards_def)
qed

lemma while_condition_timesteps:
  "while_condition config True tt i = Inr (tt < timesteps_per_batch config)"
  by (simp add: while_condition_def)

lemma while_condition_trajectories:
  "trajectories_per_batch config = Some k \<Longrightarrow> while_condition config False tt i = Inr (i < k)"
  by (simp add: while_condition_def)

lemma get_trajectories_loop_stop:
  "while_condition config u tt i = Inr False \<Longrightarrow>
   get_trajectories_loop (Suc fuel) w config a b u self ts tt i = Some (Inr (self, ts))"
  by simp

lemma get_trajectories_loop_go:
  "while_condition config u tt i = Inr True \<Longrightarrow>
   get_trajectories_loop (Suc fuel) w config a b u self ts tt i =
     get_trajectories_loop fuel w config a b u
       (fst (runner_get_trajectory w config a b self))
       (ts @ [snd (runner_get_trajectory w config a b self)])
       (tt + int (length (rewards (snd (runner_get_trajectory w config a b self))))) (i + 1)"
  by (simp add: split_beta)

lemma get_trajectories_loop_raise:
  "while_condition config u tt i = Inl e \<Longrightarrow>
   get_trajectories_loop (Suc fuel) w config a b u self ts tt i = Some (Inl e)"
  by simp

declare get_trajectories_loop.simps(2) [simp del]

lemma count_timesteps_simps:
  "count_timesteps [] = 0"
  "count_timesteps (t # ts) = int (length (rewards t)) + count_timesteps ts"
  by (simp_all add: count_timesteps_def)

lemma get_trajectories_loop_timesteps:
  assumes eml: "1 \<le> episode_max_length config"
  shows "nat (timesteps_per_batch config - tt) < fuel \<Longrightarrow>
         \<exists>self' new. get_trajectories_loop fuel w config a b True self ts tt i
                        = Some (Inr (self', ts @ new))
           \<and> timesteps_per_batch config \<le> tt + count_timesteps new
           \<and> (new \<noteq> [] \<longrightarrow> tt + count_timesteps (butlast new) < timesteps_per_batch config)"
proof (induction fuel arbitrary: self ts tt i)
  case 0
  then show ?case by simp
next
  case (Suc fuel)
  show ?case
  proof (cases "tt < timesteps_per_batch config")
    case False
    then have "while_condition config True tt i = Inr False"
      by (simp add: while_condition_timesteps)
    then have "get_trajectories_loop (Suc fuel) w config a b True self ts tt i
                 = Some (Inr (self, ts @ []))"
      using get_trajectories_loop_stop [of config True tt i fuel w a b self ts] by simp
    moreover have "timesteps_per_batch config \<le> tt + count_timesteps []"
      using False by (simp add: count_timesteps_simps)
    ultimately show ?thesis by blast
  next
    case True
    let ?r = "runner_get_trajectory w config a b self"
    let ?len = "int (length (rewards (snd ?r)))"
    have len: "1 \<le> ?len" by (rule runner_get_trajectory_nonempty [OF eml])
    have "while_condition config True tt i = Inr True"
      using True by (simp add: while_condition_timesteps)
    then have go: "get_trajectories_loop (Suc fuel) w config a b True self ts tt i =
        get_trajectories_loop fuel w config a b True (fst ?r) (ts @ [snd ?r]) (tt + ?len) (i + 1)"
      by (rule get_trajectories_loop_go)
    have "nat (timesteps_per_batch config - (tt + ?len)) < fuel"
      using Suc.prems len True by linarith
    from Suc.IH [OF this, of "fst ?r" "ts @ [snd ?r]" "i + 1"]
    obtain self' new where new:
      "get_trajectories_loop fuel w config a b True (fst ?r) (ts @ [snd ?r]) (tt + ?len) (i + 1)
         = Some (Inr (self', (ts @ [snd ?r]) @ new))"
      "timesteps_per_batch config \<le> tt + ?len + count_timesteps new"
      "new \<noteq> [] \<longrightarrow> tt + ?len + count_timesteps (butlast new) < timesteps_per_batch config"
      by auto
    have 1: "get_trajectories_loop (Suc fuel) w config a b True self ts tt i
              = Some (Inr (self', ts @ (snd ?r # new)))"
      using go new(1) by simp
    have 2: "timesteps_per_batch config \<le> tt + count_timesteps (snd ?r # new)"
      using new(2) by (simp add: count_timesteps_simps)
    have 3: "tt + count_timesteps (butlast (snd ?r # new)) < timesteps_per_batch config"
      using new(3) True by (cases "new = []") (simp_all add: count_timesteps_simps)
    from 1 2 3 show ?thesis by blast
  qed
qed

lemma get_trajectories_loop_trajectories:
  assumes k: "trajectories_per_batch config = Some k"
  shows "nat (k - i) < fuel \<Longrightarrow>
         \<exists>self' new. get_trajectories_loop fuel w config a b False self ts tt i
                        = Some (Inr (self', ts @ new))
           \<and> int (length new) = max 0 (k - i)"
proof (induction fuel arbitrary: self ts tt i)
  case 0
  then show ?case by simp
next
  case (Suc fuel)
  show ?case
  proof (cases "i < k")
    case False
    then have "while_condition config False tt i = Inr False"
      using while_condition_trajectories [OF k] by simp
    then have e: "get_trajectories_loop (Suc fuel) w config a b False self ts tt i
                 = Some (Inr (self, ts @ []))"
      using get_trajectories_loop_stop [of config False tt i fuel w a b self ts] by simp
    show ?thesis
      apply (rule exI [of _ self])
      apply (rule exI [of _ "[]"])
      using e False by simp
  next
    case True
    let ?r = "runner_get_trajectory w config a b self"
    let ?len = "int (length (rewards (snd ?r)))"
    have "while_condition config False tt i = Inr True"
      using True while_condition_trajectories [OF k] by simp
    then have go: "get_trajectories_loop (Suc fuel) w config a b False self ts tt i =
        get_trajectories_loop fuel w config a b False (fst ?r) (ts @ [snd ?r]) (tt + ?len) (i + 1)"
      by (rule get_trajectories_loop_go)
    have "nat (k - (i + 1)) < fuel"
      using Suc.prems True by linarith
    from Suc.IH [OF this, of "fst ?r" "ts @ [snd ?r]" "tt + ?len"]
    obtain self' new where new:
      "get_trajectories_loop fuel w config a b False (fst ?r) (ts @ [snd ?r]) (tt + ?len) (i + 1)
         = Some (Inr (self', (ts @ [snd ?r]) @ new))"
      "int (length new) = max 0 (k - (i + 1))"
      by auto
    have 1: "get_trajectories_loop (Suc fuel) w config a b False self ts tt i
              = Some (Inr (self', ts @ (snd ?r # new)))"
      using go new(1) by simp
    have 2: "int (length (snd ?r # new)) = max 0 (k - i)"
      using new(2) True by simp
    from 1 2 show ?thesis by blast
  qed
qed

lemma get_trajectories_loop_mono:
  "get_trajectories_loop fuel w config a b u self ts tt i = Some x \<Longrightarrow> fuel \<le> fuel' \<Longrightarrow>
   get_trajectories_loop fuel' w config a b u self ts tt i = Some x"
proof (induction fuel arbitrary: fuel' self ts tt i)
  case 0
  then show ?case by simp
next
  case (Suc fuel)
  then obtain m where m: "fuel' = Suc m" "fuel \<le> m" by (cases fuel') simp_all
  show ?case
  proof (cases "while_condition config u tt i")
    case (Inl e)
    then show ?thesis
      using Suc.prems(1) m(1) by (simp add: get_trajectories_loop_raise)
  next
    case (Inr c)
    show ?thesis
    proof (cases c)
      case False
      then show ?thesis
        using Inr Suc.prems(1) m(1) by (simp add: get_trajectories_loop_stop)
    next
      case True
      with Inr have c: "while_condition config u tt i = Inr True" by simp
      show ?thesis
        using Suc.prems(1) Suc.IH [OF _ m(2)] unfolding m(1) get_trajectories_loop_go [OF c]
        by simp
    qed
  qed
qed

lemma get_trajectories_loop_appends:
  "get_trajectories_loop fuel w config a b u self ts tt i = Some (Inr (self', ts')) \<Longrightarrow>
   \<exists>new. ts' = ts @ new"
proof (induction fuel arbitrary: self ts tt i)
  case 0
  then show ?case by simp
next
  case (Suc fuel)
  show ?case
  proof (cases "while_condition config u tt i")
    case (Inl e)
    then show ?thesis
      using Suc.prems by (simp add: get_trajectories_loop_raise)
  next
    case (Inr c)
    show ?thesis
    proof (cases c)
      case False
      then show ?thesis
        using Inr Suc.prems by (simp add: get_trajectories_loop_stop)
    next
      case True
      with Inr have c: "while_condition config u tt i = Inr True" by simp
      let ?r = "runner_get_trajectory w config a b self"
      have "get_trajectories_loop fuel w config a b u (fst ?r) (ts @ [snd ?r])
              (tt + int (length (rewards (snd ?r)))) (i + 1) = Some (Inr (self', ts'))"
        using Suc.prems unfolding get_trajectories_loop_go [OF c] .
      from Suc.IH [OF this] obtain new where "ts' = (ts @ [snd ?r]) @ new" by blast
      then have "ts' = ts @ (snd ?r # new)" by simp
      then show ?thesis by blast
    qed
  qed
qed

lemma get_trajectories_loop_ignores_trajectories_per_batch:
  "get_trajectories_loop fuel w (config\<lparr>trajectories_per_batch := x\<rparr>) a b True self ts tt i
     = get_trajectories_loop fuel w config a b True self ts tt i"
proof (induction fuel arbitrary: self ts tt i)
  case 0
  show ?case by simp
next
  case (Suc fuel)
  let ?config = "config\<lparr>trajectories_per_batch := x\<rparr>"
  have r: "runner_get_trajectory w ?config a b self = runner_get_trajectory w config a b self"
    by (simp add: runner_get_trajectory_def)
  show ?case
  proof (cases "tt < timesteps_per_batch config")
    case True
    have "while_condition ?config True tt i = Inr True" "while_condition config True tt i = Inr True"
      using True by (simp_all add: while_condition_timesteps)
    then show ?thesis
      by (simp add: get_trajectories_loop_go r Suc.IH)
  next
    case False
    have "while_condition ?config True tt i = Inr False" "while_condition config True tt i = Inr False"
      using False by (simp_all add: while_condition_timesteps)
    then show ?thesis
      by (simp add: get_trajectories_loop_stop)
  qed
qed

lemma get_trajectories_loop_ignores_timesteps_per_batch:
  "get_trajectories_loop fuel w (config\<lparr>timesteps_per_batch := x\<rparr>) a b False self ts tt i
     = get_trajectories_loop fuel w config a b False self ts tt i"
proof (induction fuel arbitrary: self ts tt i)
  case 0
  show ?case by simp
next
  case (Suc fuel)
  let ?config = "config\<lparr>timesteps_per_batch := x\<rparr>"
  have r: "runner_get_trajectory w ?config a b self = runner_get_trajectory w config a b self"
    by (simp add: runner_get_trajectory_def)
  have c: "while_condition ?config False tt i = while_condition config False tt i"
    by (simp add: while_condition_def)
  show ?case
  proof (cases "while_condition config False tt i")
    case (Inl e)
    then show ?thesis using c by (simp add: get_trajectories_loop_raise)
  next
    case (Inr d)
    show ?thesis
    proof (cases d)
      case True
      with Inr c have "while_condition ?config False tt i = Inr True"
        "while_condition config False tt i = Inr True" by simp_all
      then show ?thesis by (simp add: get_trajectories_loop_go r Suc.IH)
    next
      case False
      with Inr c have "while_condition ?config False tt i = Inr False"
        "while_condition config False tt i = Inr False" by simp_all
      then show ?thesis by (simp add: get_trajectories_loop_stop)
    qed
  qed
qed

lemmas example_runner_simps =
  get_steps_def get_steps_loop.simps get_steps_body_def step_env_def reset_env_def
  preprocess_def add_def example_runner_world_def example_runner_def example_config_def
  runner_get_trajectory_def rewards_def terminals_def states_def Let_def eval_nat_numeral

lemma example_get_steps:
  "terminals (snd (get_steps (example_runner_world 5 2) 5 False True False example_runner))
     = [False, True]"
  "rewards (snd (get_steps (example_runner_world 5 2) 5 False True False example_runner))
     = [5, 5]"
  by (simp_all add: example_runner_simps)

lemma example_runner_get_trajectory:
  "terminals (snd (runner_get_trajectory (example_runner_world 5 2)
      (example_config ''timesteps'' 5 12 None) True False example_runner))
     = [False, True, False, True, False]"
  "states (snd (runner_get_trajectory (example_runner_world 5 2)
      (example_config ''timesteps'' 5 12 None) True False example_runner))
     = [0, 1, 0, 1, 0]"
  by (simp_all add: example_runner_simps)

lemma example_get_trajectories:
  "map_option (map_sum id (map rewards \<circ> snd))
     (get_trajectories 13 (example_runner_world 5 2) (example_config ''timesteps'' 5 12 None)
        True False example_runner)
     = Some (Inr [[5, 5, 5, 5, 5], [5, 5, 5, 5, 5], [5, 5, 5, 5, 5]])"
  "map_option (map_sum id (map rewards \<circ> snd))
     (get_trajectories 3 (example_runner_world 5 2) (example_config ''trajectories'' 5 12 (Some 2))
        True True example_runner)
     = Some (Inr [[5, 5], [5, 5]])"
  "get_trajectories 3 (example_runner_world 5 2) (example_config ''trajectories'' 5 12 None)
        True False example_runner = Some (Inl KeyError)"
  by (simp_all add: get_trajectories_def get_trajectories_loop.simps while_condition_def
        example_runner_simps)

lemma get_steps_loop_first:
  "exp_state (snd (get_steps_loop w stop render (Suc n) self memory) ! length memory) = state self"
proof -
  obtain x where x: "fst (snd (get_steps_body w self memory)) = memory @ [x]"
      "exp_state x = state self"
    using get_steps_body_memory [of w self memory] by simp
  from get_steps_loop_Suc [of stop w render n self memory] show ?thesis
  proof
    assume "stop \<and> get_steps_loop w stop render (Suc n) self memory =
      (fst (get_steps_body w self memory), fst (snd (get_steps_body w self memory)))"
    then have e: "get_steps_loop w stop render (Suc n) self memory =
      (fst (get_steps_body w self memory), fst (snd (get_steps_body w self memory)))"
      by blast
    have "snd (get_steps_loop w stop render (Suc n) self memory) = memory @ [x]"
      unfolding e using x(1) by simp
    then show ?thesis using x(2) by simp
  next
    assume "\<exists>self'. get_steps_loop w stop render (Suc n) self memory =
         get_steps_loop w stop render n self' (fst (snd (get_steps_body w self memory)))"
    then obtain self' where s: "get_steps_loop w stop render (Suc n) self memory =
         get_steps_loop w stop render n self' (memory @ [x])"
      using x(1) by auto
    obtain new where "snd (get_steps_loop w stop render n self' (memory @ [x])) = (memory @ [x]) @ new"
      using get_steps_loop_memory [of w stop render n self' "memory @ [x]"] by auto
    then have "snd (get_steps_loop w stop render (Suc n) self memory) = memory @ x # new"
      using s by simp
    then show ?thesis using x(2) by simp
  qed
qed

text \<open>
  C5 (amended). Every reward that \<open>A3CThread.get_trajectory\<close> records lies in
  \<open>[-1, 1]\<close>: each pass of its loop appends the environment's reward clipped by
  \<open>np.clip(reward, -1, 1)\<close>. \<open>EnvRunner.get_steps\<close> has no clipping: each pass of its
  loop adds the reward to the memory as the environment returned it.
\<close>

theorem recorded_rewards_clipped:
  "(get_trajectory w max_length render self = Inr (trajectory, self1) \<longrightarrow>
      (\<forall>r \<in> set (traj_reward trajectory). - 1 \<le> r \<and> r \<le> 1))
   \<and> c_rewards (get_trajectory_body w i c) =
       c_rewards c @ [np_clip (fst (snd (snd (env_step w (c_env c)
          (fst (net_action w (c_state c) (c_rnn_state c))))))) (- 1) 1]
   \<and> rewards (fst (snd (get_steps_body rw runner memory))) =
       rewards memory @ [fst (snd (snd (env_step rw (env runner)
          (policy_get_env_action rw
             (fst (fst (policy_choose_action rw (policy runner) (state runner) (features runner))))))))]"
proof -
  have "rewards (fst (snd (get_steps_body rw runner memory))) =
       rewards memory @ [fst (snd (snd (env_step rw (env runner)
          (policy_get_env_action rw
             (fst (fst (policy_choose_action rw (policy runner) (state runner) (features runner))))))))]"
    unfolding rewards_def by (subst get_steps_body_memory) simp
  then show ?thesis
    using get_trajectory_shape(3) get_trajectory_body_fields(1) by blast
qed

theorem recorded_rewards_clipped_witness:
  "get_trajectory (example_world 5 2) 10 False example_thread =
     Inr (\<lparr>traj_reward = [1, 1], traj_state = [0, 1], traj_action = [0, 0],
           traj_done = True, traj_steps = 2\<rparr>,
          \<lparr>thread_env = 2, thread_rnn_state = Some ()\<rparr>)
   \<and> list_all (\<lambda>r. - 1 \<le> r \<and> r \<le> (1::real)) [1, 1]"
proof -
  note h = example_get_trajectory
  from recorded_rewards_clipped [of "example_world 5 2" 10 False example_thread
      "\<lparr>traj_reward = [1, 1], traj_state = [0, 1], traj_action = [0, 0],
           traj_done = True, traj_steps = 2\<rparr>" "\<lparr>thread_env = 2, thread_rnn_state = Some ()\<rparr>"] h
  have "\<forall>r \<in> set [1, 1 :: real]. - 1 \<le> r \<and> r \<le> 1" by simp
  then have "list_all (\<lambda>r. - 1 \<le> r \<and> r \<le> (1::real)) [1, 1]"
    unfolding list_all_iff .
  with h show ?thesis by blast
qed

text \<open>
  The claim as stated fails on the collector of the environment runner: with an
  environment that pays 5 at every step, \<open>get_steps\<close> records the rewards \<open>[5, 5]\<close>.
\<close>

theorem get_steps_rewards_counterexample:
  "rewards (snd (get_steps (example_runner_world 5 2) 5 False True False example_runner)) = [5, 5]
   \<and> \<not> (5 \<le> (1::real))"
  using example_get_steps(2) by simp

text \<open>
  C6. \<open>EnvRunner.get_trajectory(stop_at_trajectory_end, render)\<close> passes its two
  arguments positionally, so \<open>get_steps\<close> receives \<open>stop_at_trajectory_end\<close> as its
  \<open>reset\<close> parameter and \<open>render\<close> as its \<open>stop_at_trajectory_end\<close> parameter, and its
  own \<open>render\<close> parameter stays \<open>False\<close>: the environment is reset first exactly when
  \<open>stop_at_trajectory_end\<close> holds, and the loop stops at an episode end only when
  \<open>render\<close> holds. With the default arguments (\<open>True\<close>, \<open>False\<close>) the environment is
  reset first, so the first recorded state is the one the reset returns, and the call
  collects \<open>episode_max_length\<close> steps whatever episodes end on the way.
\<close>

theorem runner_get_trajectory_arguments:
  "runner_get_trajectory w config stop_at_trajectory_end render self =
     get_steps_loop w render False (nat (episode_max_length config))
       (if stop_at_trajectory_end
        then (reset_env w self)\<lparr>policy := policy_new_trajectory w (policy (reset_env w self))\<rparr>
        else self) []
   \<and> (\<not> render \<longrightarrow>
        length (snd (runner_get_trajectory w config stop_at_trajectory_end render self))
          = nat (episode_max_length config))
   \<and> length (snd (runner_get_trajectory w config True False self)) = nat (episode_max_length config)
   \<and> (0 < episode_max_length config \<longrightarrow>
        states (snd (runner_get_trajectory w config True False self)) ! 0
          = preprocess w (snd (env_reset w (env self))))"
proof -
  have 1: "runner_get_trajectory w config stop_at_trajectory_end render self =
     get_steps_loop w render False (nat (episode_max_length config))
       (if stop_at_trajectory_end
        then (reset_env w self)\<lparr>policy := policy_new_trajectory w (policy (reset_env w self))\<rparr>
        else self) []" for stop_at_trajectory_end render
    by (simp add: runner_get_trajectory_def get_steps_def Let_def)
  have 2: "length (snd (runner_get_trajectory w config s render self))
          = nat (episode_max_length config)" if "\<not> render" for s render
    using get_steps_length [of w "episode_max_length config" s render False self] that
    by (simp add: runner_get_trajectory_def)
  have 3: "states (snd (runner_get_trajectory w config True False self)) ! 0
          = preprocess w (snd (env_reset w (env self)))" if "0 < episode_max_length config"
  proof -
    let ?self0 = "(reset_env w self)\<lparr>policy := policy_new_trajectory w (policy (reset_env w self))\<rparr>"
    have "0 < nat (episode_max_length config)" using that by simp
    then obtain n where n: "nat (episode_max_length config) = Suc n"
      by (cases "nat (episode_max_length config)") simp_all
    have len: "0 < length (snd (get_steps_loop w False False (Suc n) ?self0 []))"
      using get_steps_loop_length [of w False False "Suc n" ?self0] by simp
    have "exp_state (snd (get_steps_loop w False False (Suc n) ?self0 []) ! 0) = state ?self0"
      using get_steps_loop_first [of w False False n ?self0 "[]"] by simp
    then have "states (snd (get_steps_loop w False False (Suc n) ?self0 [])) ! 0 = state ?self0"
      using len by (simp add: states_def)
    moreover have "state ?self0 = preprocess w (snd (env_reset w (env self)))"
      by (simp add: reset_env_def split_beta)
    ultimately show ?thesis
      using 1 [of True False] n by simp
  qed
  show ?thesis using 1 2 3 by blast
qed

theorem runner_get_trajectory_arguments_witness:
  "\<not> False \<and> (0::int) < 5
   \<and> length (snd (runner_get_trajectory (example_runner_world 5 2)
        (example_config ''timesteps'' 5 12 None) True False example_runner)) = 5
   \<and> terminals (snd (runner_get_trajectory (example_runner_world 5 2)
        (example_config ''timesteps'' 5 12 None) True False example_runner))
       = [False, True, False, True, False]
   \<and> states (snd (runner_get_trajectory (example_runner_world 5 2)
        (example_config ''timesteps'' 5 12 None) True False example_runner)) ! 0 = 0
   \<and> terminals (snd (get_steps (example_runner_world 5 2) 5 False True False example_runner))
       = [False, True]"
proof -
  have h: "(0::int) < episode_max_length (example_config ''timesteps'' 5 12 None)"
    by (simp add: example_config_def)
  note t = runner_get_trajectory_arguments [of "example_runner_world 5 2"
      "example_config ''timesteps'' 5 12 None" True False example_runner]
  from t have "length (snd (runner_get_trajectory (example_runner_world 5 2)
        (example_config ''timesteps'' 5 12 None) True False example_runner))
        = nat (episode_max_length (example_config ''timesteps'' 5 12 None))"
    by blast
  then have l: "length (snd (runner_get_trajectory (example_runner_world 5 2)
        (example_config ''timesteps'' 5 12 None) True False example_runner)) = 5"
    by (simp add: example_config_def)
  from t h have "states (snd (runner_get_trajectory (example_runner_world 5 2)
        (example_config ''timesteps'' 5 12 None) True False example_runner)) ! 0
        = preprocess (example_runner_world 5 2)
            (snd (env_reset (example_runner_world 5 2) (env example_runner)))"
    by blast
  then have s: "states (snd (runner_get_trajectory (example_runner_world 5 2)
        (example_config ''timesteps'' 5 12 None) True False example_runner)) ! 0 = 0"
    by (simp add: preprocess_def example_runner_world_def)
  show ?thesis
    using l s example_runner_get_trajectory(1) example_get_steps(1) by simp
qed

text \<open>
  C7. \<open>get_trajectories\<close> accumulates whole trajectories under one of two modes. When
  \<open>batch_update\<close> is \<open>"timesteps"\<close> (and every trajectory has at least one step, which
  \<open>episode_max_length \<ge> 1\<close> ensures) it returns, and it has appended trajectories until
  the accumulated timestep total reached \<open>timesteps_per_batch\<close>: the total of the result
  is at least the threshold and the total without the last trajectory is below it.
  Otherwise, with \<open>trajectories_per_batch = k\<close>, it returns, with exactly \<open>k\<close>
  trajectories (none when \<open>k\<close> is negative). In each mode the threshold of the other
  mode is not consulted: changing or removing it changes nothing. Trajectories are only
  appended: the list that the loop returns extends the list it started with.
\<close>

theorem get_trajectories_modes:
  "(batch_update config = ''timesteps'' \<and> 1 \<le> episode_max_length config \<longrightarrow>
      (\<exists>self' ts.
          (\<forall>fuel. nat (timesteps_per_batch config) < fuel \<longrightarrow>
             get_trajectories fuel w config a b self = Some (Inr (self', ts)))
          \<and> timesteps_per_batch config \<le> count_timesteps ts
          \<and> (ts \<noteq> [] \<longrightarrow> count_timesteps (butlast ts) < timesteps_per_batch config)))
   \<and> (batch_update config = ''timesteps'' \<longrightarrow>
        (\<forall>fuel x. get_trajectories fuel w (config\<lparr>trajectories_per_batch := x\<rparr>) a b self
                    = get_trajectories fuel w config a b self))
   \<and> (batch_update config \<noteq> ''timesteps'' \<and> trajectories_per_batch config = Some k \<longrightarrow>
        (\<exists>self' ts.
            (\<forall>fuel. nat k < fuel \<longrightarrow>
               get_trajectories fuel w config a b self = Some (Inr (self', ts)))
            \<and> int (length ts) = max 0 k))
   \<and> (batch_update config \<noteq> ''timesteps'' \<longrightarrow>
        (\<forall>fuel x. get_trajectories fuel w (config\<lparr>timesteps_per_batch := x\<rparr>) a b self
                    = get_trajectories fuel w config a b self))
   \<and> (get_trajectories_loop fuel0 w config a b u self ts0 tt i = Some (Inr (self1, ts1)) \<longrightarrow>
        (\<exists>new. ts1 = ts0 @ new))"
proof -
  have m1: "\<exists>self' ts.
          (\<forall>fuel. nat (timesteps_per_batch config) < fuel \<longrightarrow>
             get_trajectories fuel w config a b self = Some (Inr (self', ts)))
          \<and> timesteps_per_batch config \<le> count_timesteps ts
          \<and> (ts \<noteq> [] \<longrightarrow> count_timesteps (butlast ts) < timesteps_per_batch config)"
    if mode: "batch_update config = ''timesteps''" and eml: "1 \<le> episode_max_length config"
  proof -
    let ?f = "Suc (nat (timesteps_per_batch config))"
    have "nat (timesteps_per_batch config - 0) < ?f" by simp
    from get_trajectories_loop_timesteps [OF eml this, of w a b self "[]" 0]
    obtain self' new where new:
      "get_trajectories_loop ?f w config a b True self [] 0 0 = Some (Inr (self', [] @ new))"
      "timesteps_per_batch config \<le> 0 + count_timesteps new"
      "new \<noteq> [] \<longrightarrow> 0 + count_timesteps (butlast new) < timesteps_per_batch config"
      by blast
    have "get_trajectories fuel w config a b self = Some (Inr (self', new))"
      if "nat (timesteps_per_batch config) < fuel" for fuel
    proof -
      have "?f \<le> fuel" using that by simp
      from get_trajectories_loop_mono [OF new(1) this] show ?thesis
        by (simp add: get_trajectories_def mode)
    qed
    with new(2,3) show ?thesis by auto
  qed
  have i1: "get_trajectories fuel w (config\<lparr>trajectories_per_batch := x\<rparr>) a b self
                    = get_trajectories fuel w config a b self"
    if "batch_update config = ''timesteps''" for fuel x
    using that by (simp add: get_trajectories_def get_trajectories_loop_ignores_trajectories_per_batch)
  have m2: "\<exists>self' ts.
            (\<forall>fuel. nat k < fuel \<longrightarrow>
               get_trajectories fuel w config a b self = Some (Inr (self', ts)))
            \<and> int (length ts) = max 0 k"
    if mode: "batch_update config \<noteq> ''timesteps''" and k: "trajectories_per_batch config = Some k"
  proof -
    let ?f = "Suc (nat k)"
    have "nat (k - 0) < ?f" by simp
    from get_trajectories_loop_trajectories [OF k this, of w a b self "[]" 0]
    obtain self' new where new:
      "get_trajectories_loop ?f w config a b False self [] 0 0 = Some (Inr (self', [] @ new))"
      "int (length new) = max 0 (k - 0)"
      by blast
    have "get_trajectories fuel w config a b self = Some (Inr (self', new))"
      if "nat k < fuel" for fuel
    proof -
      have "?f \<le> fuel" using that by simp
      from get_trajectories_loop_mono [OF new(1) this] show ?thesis
        by (simp add: get_trajectories_def mode)
    qed
    with new(2) show ?thesis by auto
  qed
  have i2: "get_trajectories fuel w (config\<lparr>timesteps_per_batch := x\<rparr>) a b self
                    = get_trajectories fuel w config a b self"
    if "batch_update config \<noteq> ''timesteps''" for fuel x
    using that by (simp add: get_trajectories_def get_trajectories_loop_ignores_timesteps_per_batch)
  have ap: "\<exists>new. ts1 = ts0 @ new"
    if "get_trajectories_loop fuel0 w config a b u self ts0 tt i = Some (Inr (self1, ts1))"
    using that by (rule get_trajectories_loop_appends)
  show ?thesis
    apply (intro conjI impI allI)
    subgoal using m1 by blast
    subgoal using i1 by blast
    subgoal using m2 by blast
    subgoal using i2 by blast
    subgoal using ap by blast
    done
qed

theorem get_trajectories_modes_witness:
  "batch_update (example_config ''timesteps'' 5 12 None) = ''timesteps''
   \<and> 1 \<le> episode_max_length (example_config ''timesteps'' 5 12 None)
   \<and> (\<exists>self' ts. get_trajectories 13 (example_runner_world 5 2)
         (example_config ''timesteps'' 5 12 None) True False example_runner = Some (Inr (self', ts))
         \<and> 12 \<le> count_timesteps ts \<and> map rewards ts = [[5, 5, 5, 5, 5], [5, 5, 5, 5, 5], [5, 5, 5, 5, 5]])
   \<and> batch_update (example_config ''trajectories'' 5 12 (Some 2)) \<noteq> ''timesteps''
   \<and> trajectories_per_batch (example_config ''trajectories'' 5 12 (Some 2)) = Some 2
   \<and> (\<exists>self' ts. get_trajectories 3 (example_runner_world 5 2)
         (example_config ''trajectories'' 5 12 (Some 2)) True True example_runner = Some (Inr (self', ts))
         \<and> int (length ts) = 2 \<and> map rewards ts = [[5, 5], [5, 5]])"
proof -
  let ?c1 = "example_config ''timesteps'' 5 12 None"
  let ?c2 = "example_config ''trajectories'' 5 12 (Some 2)"
  have h1: "batch_update ?c1 = ''timesteps''" "1 \<le> episode_max_length ?c1"
    "timesteps_per_batch ?c1 = 12"
    by (simp_all add: example_config_def)
  have h2: "batch_update ?c2 \<noteq> ''timesteps''" "trajectories_per_batch ?c2 = Some 2"
    by (simp_all add: example_config_def)
  have "batch_update ?c1 = ''timesteps'' \<and> 1 \<le> episode_max_length ?c1 \<longrightarrow>
      (\<exists>self' ts.
          (\<forall>fuel. nat (timesteps_per_batch ?c1) < fuel \<longrightarrow>
             get_trajectories fuel (example_runner_world 5 2) ?c1 True False example_runner
               = Some (Inr (self', ts)))
          \<and> timesteps_per_batch ?c1 \<le> count_timesteps ts
          \<and> (ts \<noteq> [] \<longrightarrow> count_timesteps (butlast ts) < timesteps_per_batch ?c1))"
    by (rule get_trajectories_modes [of ?c1 "example_runner_world 5 2" True False example_runner
          0 0 True "[]" 0 0 example_runner "[]", THEN conjunct1])
  with h1(1,2) obtain self' ts where a:
    "\<forall>fuel. nat (timesteps_per_batch ?c1) < fuel \<longrightarrow>
        get_trajectories fuel (example_runner_world 5 2) ?c1 True False
        example_runner = Some (Inr (self', ts))"
    "timesteps_per_batch ?c1 \<le> count_timesteps ts"
    by blast
  have "nat (timesteps_per_batch ?c1) < (13::nat)" unfolding h1(3) by simp
  with a(1) have a13: "get_trajectories 13 (example_runner_world 5 2) ?c1 True False
        example_runner = Some (Inr (self', ts))" by blast
  have a12: "12 \<le> count_timesteps ts" using a(2) unfolding h1(3) .
  have ar: "map rewards ts = [[5, 5, 5, 5, 5], [5, 5, 5, 5, 5], [5, 5, 5, 5, 5]]"
    using example_get_trajectories(1) a13 by simp
  have "batch_update ?c2 \<noteq> ''timesteps'' \<and> trajectories_per_batch ?c2 = Some 2 \<longrightarrow>
        (\<exists>self' ts.
            (\<forall>fuel. nat 2 < fuel \<longrightarrow>
               get_trajectories fuel (example_runner_world 5 2) ?c2 True True example_runner
                 = Some (Inr (self', ts)))
            \<and> int (length ts) = max 0 2)"
    by (rule get_trajectories_modes [of ?c2 "example_runner_world 5 2" True True example_runner
          2 0 True "[]" 0 0 example_runner "[]", THEN conjunct2, THEN conjunct2, THEN conjunct1])
  with h2 obtain self2 ts2 where b:
    "\<forall>fuel. nat 2 < fuel \<longrightarrow> get_trajectories fuel (example_runner_world 5 2) ?c2 True True
        example_runner = Some (Inr (self2, ts2))"
    "int (length ts2) = max 0 2"
    by blast
  have "(nat 2) < (3::nat)" by simp
  with b(1) have b3: "get_trajectories 3 (example_runner_world 5 2) ?c2 True True
        example_runner = Some (Inr (self2, ts2))" by blast
  have b2: "int (length ts2) = 2" using b(2) by simp
  have br: "map rewards ts2 = [[5, 5], [5, 5]]"
    using example_get_trajectories(2) b3 by simp
  have e1: "\<exists>self' ts. get_trajectories 13 (example_runner_world 5 2) ?c1 True False
         example_runner = Some (Inr (self', ts))
         \<and> 12 \<le> count_timesteps ts
         \<and> map rewards ts = [[5, 5, 5, 5, 5], [5, 5, 5, 5, 5], [5, 5, 5, 5, 5]]"
    by (rule exI [of _ self'], rule exI [of _ ts], intro conjI) (rule a13 a12 ar)+
  have e2: "\<exists>self' ts. get_trajectories 3 (example_runner_world 5 2) ?c2 True True
         example_runner = Some (Inr (self', ts))
         \<and> int (length ts) = 2 \<and> map rewards ts = [[5, 5], [5, 5]]"
    by (rule exI [of _ self2], rule exI [of _ ts2], intro conjI) (rule b3 b2 br)+
  show ?thesis
    apply (intro conjI)
         apply (rule h1(1))
        apply (rule h1(2))
       apply (rule e1)
      apply (rule h2(1))
     apply (rule h2(2))
    apply (rule e2)
    done
qed

section \<open>Properties of the discrete policy-gradient loss\<close>








section \<open>Properties of the worker loop and shutdown\<close>

lemma filter_length_update:
  "i < length xs \<Longrightarrow>
   length (filter P (xs[i := y])) + (if P (xs ! i) then 1 else 0)
     = length (filter P xs) + (if P y then 1 else 0)"
proof (induction xs arbitrary: i)
  case Nil
  then show ?case by simp
next
  case (Cons x xs)
  show ?case
  proof (cases i)
    case 0
    then show ?thesis by simp
  next
    case (Suc j)
    then have "j < length xs" using Cons.prems by simp
    from Cons.IH [OF this] show ?thesis using Suc by simp
  qed
qed

lemma sum_list_map_update:
  "i < length xs \<Longrightarrow>
   sum_list (map f (xs[i := y])) + f (xs ! i) = sum_list (map f xs) + (f y :: nat)"
proof (induction xs arbitrary: i)
  case Nil
  then show ?case by simp
next
  case (Cons x xs)
  show ?case
  proof (cases i)
    case 0
    then show ?thesis by simp
  next
    case (Suc j)
    then have "j < length xs" using Cons.prems by simp
    from Cons.IH [OF this] show ?thesis using Suc by simp
  qed
qed

text \<open>What one move of a thread does, by the place the thread is at.\<close>

lemma move_at_Guard_T:
  "jobs s ! i = Guard_T \<Longrightarrow>
   move T_max i k s =
     Some (s\<lparr>jobs := (jobs s)[i := if real_of_int (T s) < T_max then Guard_stop else Exited]\<rparr>)"
  by (simp add: move_def)

lemma move_at_Guard_stop:
  "jobs s ! i = Guard_stop \<Longrightarrow>
   move T_max i k s = Some (s\<lparr>jobs := (jobs s)[i := if \<not> stop_requested s then Body else Exited]\<rparr>)"
  by (simp add: move_def)

lemma move_at_Body:
  "jobs s ! i = Body \<Longrightarrow>
   move T_max i k s =
     (if 1 \<le> k
      then Some (s\<lparr>global_step := global_step s + 1, jobs := (jobs s)[i := Add_load k]\<rparr>)
      else None)"
  by (simp add: move_def)

lemma move_at_Add_load:
  "jobs s ! i = Add_load n \<Longrightarrow>
   move T_max i k s = Some (s\<lparr>jobs := (jobs s)[i := Add_store (T s + int n)]\<rparr>)"
  by (simp add: move_def)

lemma move_at_Add_store:
  "jobs s ! i = Add_store v \<Longrightarrow>
   move T_max i k s = Some (s\<lparr>T := v, jobs := (jobs s)[i := Guard_T]\<rparr>)"
  by (simp add: move_def)

lemma move_at_Exited:
  "jobs s ! i = Exited \<Longrightarrow> move T_max i k s = None"
  by (simp add: move_def)

lemmas move_at =
  move_at_Guard_T move_at_Guard_stop move_at_Body move_at_Add_load move_at_Add_store
  move_at_Exited

lemma move_shape:
  assumes "move T_max i k s = Some s'"
  shows "\<exists>p. jobs s' = (jobs s)[i := p]" and "stop_requested s' = stop_requested s"
    and "jobs s ! i \<noteq> Exited"
  using assms by (cases "jobs s ! i"; auto simp: move_at split: if_splits)+

lemma move_enters:
  assumes "i < length (jobs s)" "move T_max i k s = Some s'"
  shows "jobs s' ! i = Body \<longrightarrow> jobs s ! i = Guard_stop \<and> \<not> stop_requested s"
    and "jobs s' ! i = Guard_stop \<longrightarrow> jobs s ! i = Guard_T \<and> real_of_int (T s) < T_max"
  using assms by (cases "jobs s ! i"; auto simp: move_at split: if_splits)+

lemma move_after_stop:
  assumes "i < length (jobs s)" "move T_max i k s = Some s'" "stop_requested s"
  shows "moves_left (jobs s' ! i) < moves_left (jobs s ! i)"
    and "jobs s' ! i \<noteq> Body"
    and "global_step s' = global_step s + (if jobs s ! i = Body then 1 else 0)"
  using assms by (cases "jobs s ! i"; auto simp: move_at split: if_splits)+

lemma move_when_joined:
  "all_joined s \<Longrightarrow> i < length (jobs s) \<Longrightarrow> move T_max i k s = None"
  by (simp add: all_joined_def list_all_length move_at_Exited)

lemma step_after_stop:
  assumes stop: "stop_requested s" and st: "step T_max e s = Some s'"
  shows "stop_requested s' \<and> length (jobs s') = length (jobs s)
         \<and> (\<forall>j < length (jobs s). jobs s' ! j = Body \<longrightarrow> jobs s ! j = Body)
         \<and> global_step s' + int (in_flight s') = global_step s + int (in_flight s)
         \<and> sum_list (map moves_left (jobs s')) + (if e = Sigint then 0 else 1)
              \<le> sum_list (map moves_left (jobs s))"
proof (cases e)
  case Sigint
  then have "s' = s\<lparr>stop_requested := True\<rparr>" using st by simp
  then show ?thesis using Sigint by (simp add: in_flight_def)
next
  case (Move i k)
  then have i: "i < length (jobs s)" and m: "move T_max i k s = Some s'"
    using st by (simp_all split: if_splits)
  obtain p where p: "jobs s' = (jobs s)[i := p]"
    using move_shape(1) [OF m] by blast
  have pi: "jobs s' ! i = p" using p i by simp
  have a1: "stop_requested s'" using move_shape(2) [OF m] stop by simp
  have a2: "length (jobs s') = length (jobs s)" using p by simp
  have nb: "p \<noteq> Body" using move_after_stop(2) [OF i m stop] pi by simp
  have a3: "\<forall>j < length (jobs s). jobs s' ! j = Body \<longrightarrow> jobs s ! j = Body"
  proof (intro allI impI)
    fix j assume "j < length (jobs s)" "jobs s' ! j = Body"
    then show "jobs s ! j = Body" using p nb by (cases "j = i") simp_all
  qed
  have "length (filter (\<lambda>q. q = Body) ((jobs s)[i := p])) + (if jobs s ! i = Body then 1 else 0)
          = length (filter (\<lambda>q. q = Body) (jobs s)) + (if p = Body then 1 else 0)"
    by (rule filter_length_update [OF i])
  then have f: "in_flight s' + (if jobs s ! i = Body then 1 else 0) = in_flight s"
    using nb by (simp add: in_flight_def p)
  have g: "global_step s' = global_step s + (if jobs s ! i = Body then 1 else 0)"
    by (rule move_after_stop(3) [OF i m stop])
  have a4: "global_step s' + int (in_flight s') = global_step s + int (in_flight s)"
    using f g by (cases "jobs s ! i = Body") simp_all
  have "sum_list (map moves_left ((jobs s)[i := p])) + moves_left (jobs s ! i)
          = sum_list (map moves_left (jobs s)) + moves_left p"
    by (rule sum_list_map_update [OF i])
  moreover have "moves_left p < moves_left (jobs s ! i)"
    using move_after_stop(1) [OF i m stop] pi by simp
  ultimately have a5: "sum_list (map moves_left (jobs s')) + 1 \<le> sum_list (map moves_left (jobs s))"
    unfolding p by linarith
  show ?thesis using a1 a2 a3 a4 a5 Move by simp
qed

lemma run_events_after_stop:
  "stop_requested s \<Longrightarrow> run_events T_max es s = Some s' \<Longrightarrow>
   stop_requested s' \<and> length (jobs s') = length (jobs s)
   \<and> (\<forall>j < length (jobs s). jobs s' ! j = Body \<longrightarrow> jobs s ! j = Body)
   \<and> global_step s' + int (in_flight s') = global_step s + int (in_flight s)
   \<and> sum_list (map moves_left (jobs s')) + length (filter (\<lambda>e. e \<noteq> Sigint) es)
        \<le> sum_list (map moves_left (jobs s))"
proof (induction es arbitrary: s)
  case Nil
  then show ?case by simp
next
  case (Cons e es)
  from Cons.prems(2) obtain s1 where s1: "step T_max e s = Some s1"
      "run_events T_max es s1 = Some s'"
    by (cases "step T_max e s") simp_all
  note a = step_after_stop [OF Cons.prems(1) s1(1)]
  from a have stop1: "stop_requested s1" by blast
  note b = Cons.IH [OF stop1 s1(2)]
  have c1: "stop_requested s'" using b by blast
  have c2: "length (jobs s') = length (jobs s)" using a b by simp
  have c3: "\<forall>j < length (jobs s). jobs s' ! j = Body \<longrightarrow> jobs s ! j = Body"
    using a b by (metis)
  have c4: "global_step s' + int (in_flight s') = global_step s + int (in_flight s)"
    using a b by simp
  have c5: "sum_list (map moves_left (jobs s')) + length (filter (\<lambda>e. e \<noteq> Sigint) (e # es))
        \<le> sum_list (map moves_left (jobs s))"
  proof -
    have "sum_list (map moves_left (jobs s1)) + (if e = Sigint then 0 else 1)
              \<le> sum_list (map moves_left (jobs s))" using a by blast
    moreover have "sum_list (map moves_left (jobs s')) + length (filter (\<lambda>e. e \<noteq> Sigint) es)
        \<le> sum_list (map moves_left (jobs s1))" using b by blast
    ultimately show ?thesis by (cases "e = Sigint") simp_all
  qed
  show ?case using c1 c2 c3 c4 c5 by blast
qed

lemma step_when_joined:
  assumes "all_joined s" "step T_max e s = Some s'"
  shows "T s' = T s \<and> global_step s' = global_step s \<and> all_joined s'"
proof (cases e)
  case Sigint
  then have "s' = s\<lparr>stop_requested := True\<rparr>" using assms(2) by simp
  then show ?thesis using assms(1) by (simp add: all_joined_def)
next
  case (Move i k)
  then show ?thesis
    using assms move_when_joined [OF assms(1), of i T_max k] by (simp split: if_splits)
qed

lemma run_events_when_joined:
  "all_joined s \<Longrightarrow> run_events T_max es s = Some s' \<Longrightarrow>
   T s' = T s \<and> global_step s' = global_step s \<and> all_joined s'"
proof (induction es arbitrary: s)
  case Nil
  then show ?case by simp
next
  case (Cons e es)
  from Cons.prems(2) obtain s1 where s1: "step T_max e s = Some s1"
      "run_events T_max es s1 = Some s'"
    by (cases "step T_max e s") simp_all
  note a = step_when_joined [OF Cons.prems(1) s1(1)]
  from a have "all_joined s1" by blast
  from Cons.IH [OF this s1(2)] a show ?case by simp
qed

lemma example_schedule:
  "step 3 (Move 0 1) (initial 2)
     = Some \<lparr>T = 0, stop_requested = False, global_step = 0, jobs = [Guard_stop, Guard_T]\<rparr>"
  "run_events 3 [Move 0 1, Move 0 1, Sigint] (initial 2)
     = Some \<lparr>T = 0, stop_requested = True, global_step = 0, jobs = [Body, Guard_T]\<rparr>"
  "run_events 3 [Move 1 1, Move 1 1, Move 0 2, Move 0 1, Move 0 1, Move 0 1, Move 0 1]
     \<lparr>T = 0, stop_requested = True, global_step = 0, jobs = [Body, Guard_T]\<rparr>
     = Some \<lparr>T = 2, stop_requested = True, global_step = 1, jobs = [Exited, Exited]\<rparr>"
  "run_events 3 [Sigint, Sigint]
     \<lparr>T = 2, stop_requested = True, global_step = 1, jobs = [Exited, Exited]\<rparr>
     = Some \<lparr>T = 2, stop_requested = True, global_step = 1, jobs = [Exited, Exited]\<rparr>"
  by (simp_all add: initial_def move_def eval_nat_numeral)

text \<open>
  C3. A worker enters the body of its loop only by a move from \<open>Guard_stop\<close> that reads
  \<open>stop_requested\<close> as false, and it reaches \<open>Guard_stop\<close> only by a move from
  \<open>Guard_T\<close> that reads \<open>T\<close> below \<open>T_max\<close>: both tests are made at the top of the
  iteration and nowhere else, and a move changes the place of no other worker. The
  interrupt handler sets the shutdown flag. A worker in the body finishes it whatever
  the flag is, and a worker that has not exited can always move. Once the flag is set
  it stays set, no worker enters the body any more, every iteration in flight adds
  exactly one to \<open>global_step\<close> when it completes, and the workers make a bounded
  number of moves, at most five each. Once all workers have exited, so that \<open>learn\<close>
  has joined them, \<open>T\<close> and \<open>global_step\<close> do not change any more.
\<close>

theorem worker_loop_shutdown:
  "(step T_max (Move i k) s = Some s' \<longrightarrow>
      (jobs s' ! i = Body \<longrightarrow> jobs s ! i = Guard_stop \<and> \<not> stop_requested s)
      \<and> (jobs s' ! i = Guard_stop \<longrightarrow> jobs s ! i = Guard_T \<and> real_of_int (T s) < T_max)
      \<and> (\<forall>j. j \<noteq> i \<longrightarrow> jobs s' ! j = jobs s ! j))
   \<and> step T_max Sigint s = Some (s\<lparr>stop_requested := True\<rparr>)
   \<and> (i < length (jobs s) \<and> jobs s ! i = Body \<and> 1 \<le> k \<longrightarrow>
        step T_max (Move i k) s =
          Some (s\<lparr>global_step := global_step s + 1, jobs := (jobs s)[i := Add_load k]\<rparr>))
   \<and> (i < length (jobs s) \<and> jobs s ! i \<noteq> Exited \<and> 1 \<le> k \<longrightarrow>
        (\<exists>s1. step T_max (Move i k) s = Some s1))
   \<and> (stop_requested s \<and> run_events T_max es s = Some s2 \<longrightarrow>
        stop_requested s2
        \<and> (\<forall>j < length (jobs s). jobs s2 ! j = Body \<longrightarrow> jobs s ! j = Body)
        \<and> global_step s2 + int (in_flight s2) = global_step s + int (in_flight s)
        \<and> length (filter (\<lambda>e. e \<noteq> Sigint) es) \<le> sum_list (map moves_left (jobs s))
        \<and> sum_list (map moves_left (jobs s)) \<le> 5 * length (jobs s))
   \<and> (all_joined s \<and> run_events T_max es s = Some s2 \<longrightarrow>
        T s2 = T s \<and> global_step s2 = global_step s \<and> all_joined s2)"
proof -
  have p1: "(jobs s' ! i = Body \<longrightarrow> jobs s ! i = Guard_stop \<and> \<not> stop_requested s)
      \<and> (jobs s' ! i = Guard_stop \<longrightarrow> jobs s ! i = Guard_T \<and> real_of_int (T s) < T_max)
      \<and> (\<forall>j. j \<noteq> i \<longrightarrow> jobs s' ! j = jobs s ! j)"
    if "step T_max (Move i k) s = Some s'"
  proof -
    from that have i: "i < length (jobs s)" and m: "move T_max i k s = Some s'"
      by (simp_all split: if_splits)
    obtain p where p: "jobs s' = (jobs s)[i := p]"
      using move_shape(1) [OF m] by blast
    then have "\<forall>j. j \<noteq> i \<longrightarrow> jobs s' ! j = jobs s ! j" by simp
    with move_enters [OF i m] show ?thesis by blast
  qed
  have p2: "step T_max Sigint s = Some (s\<lparr>stop_requested := True\<rparr>)" by simp
  have p3: "step T_max (Move i k) s =
          Some (s\<lparr>global_step := global_step s + 1, jobs := (jobs s)[i := Add_load k]\<rparr>)"
    if "i < length (jobs s)" "jobs s ! i = Body" "1 \<le> k"
    using that by (simp add: move_at_Body)
  have p4: "\<exists>s1. step T_max (Move i k) s = Some s1"
    if "i < length (jobs s)" "jobs s ! i \<noteq> Exited" "1 \<le> k"
    using that by (cases "jobs s ! i") (simp_all add: move_at)
  have ml: "moves_left p \<le> 5" for p by (cases p) simp_all
  have bound: "sum_list (map moves_left ps) \<le> 5 * length ps" for ps
  proof (induction ps)
    case Nil
    show ?case by simp
  next
    case (Cons p ps)
    then show ?case using ml [of p] by simp
  qed
  have p5: "stop_requested s2
        \<and> (\<forall>j < length (jobs s). jobs s2 ! j = Body \<longrightarrow> jobs s ! j = Body)
        \<and> global_step s2 + int (in_flight s2) = global_step s + int (in_flight s)
        \<and> length (filter (\<lambda>e. e \<noteq> Sigint) es) \<le> sum_list (map moves_left (jobs s))
        \<and> sum_list (map moves_left (jobs s)) \<le> 5 * length (jobs s)"
    if "stop_requested s" "run_events T_max es s = Some s2"
  proof -
    note a = run_events_after_stop [OF that]
    from a have "sum_list (map moves_left (jobs s2)) + length (filter (\<lambda>e. e \<noteq> Sigint) es)
        \<le> sum_list (map moves_left (jobs s))" by blast
    then have "length (filter (\<lambda>e. e \<noteq> Sigint) es) \<le> sum_list (map moves_left (jobs s))"
      by linarith
    with a bound [of "jobs s"] show ?thesis by blast
  qed
  have p6: "T s2 = T s \<and> global_step s2 = global_step s \<and> all_joined s2"
    if "all_joined s" "run_events T_max es s = Some s2"
    using that by (rule run_events_when_joined)
  have q1: "step T_max (Move i k) s = Some s' \<longrightarrow>
      (jobs s' ! i = Body \<longrightarrow> jobs s ! i = Guard_stop \<and> \<not> stop_requested s)
      \<and> (jobs s' ! i = Guard_stop \<longrightarrow> jobs s ! i = Guard_T \<and> real_of_int (T s) < T_max)
      \<and> (\<forall>j. j \<noteq> i \<longrightarrow> jobs s' ! j = jobs s ! j)"
    using p1 by (rule impI)
  have q3: "i < length (jobs s) \<and> jobs s ! i = Body \<and> 1 \<le> k \<longrightarrow>
        step T_max (Move i k) s =
          Some (s\<lparr>global_step := global_step s + 1, jobs := (jobs s)[i := Add_load k]\<rparr>)"
    using p3 by blast
  have q4: "i < length (jobs s) \<and> jobs s ! i \<noteq> Exited \<and> 1 \<le> k \<longrightarrow>
        (\<exists>s1. step T_max (Move i k) s = Some s1)"
    using p4 by blast
  have q5: "stop_requested s \<and> run_events T_max es s = Some s2 \<longrightarrow>
        stop_requested s2
        \<and> (\<forall>j < length (jobs s). jobs s2 ! j = Body \<longrightarrow> jobs s ! j = Body)
        \<and> global_step s2 + int (in_flight s2) = global_step s + int (in_flight s)
        \<and> length (filter (\<lambda>e. e \<noteq> Sigint) es) \<le> sum_list (map moves_left (jobs s))
        \<and> sum_list (map moves_left (jobs s)) \<le> 5 * length (jobs s)"
    using p5 by blast
  have q6: "all_joined s \<and> run_events T_max es s = Some s2 \<longrightarrow>
        T s2 = T s \<and> global_step s2 = global_step s \<and> all_joined s2"
    using p6 by blast
  show ?thesis
    by (rule conjI [OF q1 conjI [OF p2 conjI [OF q3 conjI [OF q4 conjI [OF q5 q6]]]]])
qed

theorem worker_loop_shutdown_witness:
  "step 3 (Move 0 1) (initial 2)
     = Some \<lparr>T = 0, stop_requested = False, global_step = 0, jobs = [Guard_stop, Guard_T]\<rparr>
   \<and> jobs (initial 2) ! 0 = Guard_T \<and> real_of_int (T (initial 2)) < 3
   \<and> run_events 3 [Move 0 1, Move 0 1, Sigint] (initial 2)
     = Some \<lparr>T = 0, stop_requested = True, global_step = 0, jobs = [Body, Guard_T]\<rparr>
   \<and> run_events 3 [Move 1 1, Move 1 1, Move 0 2, Move 0 1, Move 0 1, Move 0 1, Move 0 1]
        \<lparr>T = 0, stop_requested = True, global_step = 0, jobs = [Body, Guard_T]\<rparr>
     = Some \<lparr>T = 2, stop_requested = True, global_step = 1, jobs = [Exited, Exited]\<rparr>
   \<and> global_step \<lparr>T = 2, stop_requested = True, global_step = 1, jobs = [Exited, Exited]\<rparr>
       + int (in_flight \<lparr>T = 2, stop_requested = True, global_step = 1, jobs = [Exited, Exited]\<rparr>)
     = global_step \<lparr>T = 0, stop_requested = True, global_step = 0, jobs = [Body, Guard_T]\<rparr>
       + int (in_flight \<lparr>T = 0, stop_requested = True, global_step = 0, jobs = [Body, Guard_T]\<rparr>)
   \<and> all_joined \<lparr>T = 2, stop_requested = True, global_step = 1, jobs = [Exited, Exited]\<rparr>
   \<and> run_events 3 [Sigint, Sigint]
        \<lparr>T = 2, stop_requested = True, global_step = 1, jobs = [Exited, Exited]\<rparr>
     = Some \<lparr>T = 2, stop_requested = True, global_step = 1, jobs = [Exited, Exited]\<rparr>"
proof -
  let ?a = "\<lparr>T = 0, stop_requested = False, global_step = 0, jobs = [Guard_stop, Guard_T]\<rparr>"
  let ?s1 = "\<lparr>T = 0, stop_requested = True, global_step = 0, jobs = [Body, Guard_T]\<rparr>"
  let ?s2 = "\<lparr>T = 2, stop_requested = True, global_step = 1, jobs = [Exited, Exited]\<rparr>"
  let ?es = "[Move 1 1, Move 1 1, Move 0 2, Move 0 1, Move 0 1, Move 0 1, Move 0 1]"
  have ga: "jobs ?a ! 0 = Guard_stop" by simp
  have "step 3 (Move 0 1) (initial 2) = Some ?a \<longrightarrow>
      (jobs ?a ! 0 = Body \<longrightarrow> jobs (initial 2) ! 0 = Guard_stop \<and> \<not> stop_requested (initial 2))
      \<and> (jobs ?a ! 0 = Guard_stop \<longrightarrow> jobs (initial 2) ! 0 = Guard_T \<and> real_of_int (T (initial 2)) < 3)
      \<and> (\<forall>j. j \<noteq> 0 \<longrightarrow> jobs ?a ! j = jobs (initial 2) ! j)"
    by (rule worker_loop_shutdown [where T_max = 3 and i = 0 and k = 1 and s = "initial 2"
          and s' = ?a and es = "[]" and ?s2.0 = "initial 2", THEN conjunct1])
  with example_schedule(1) ga
  have w1: "jobs (initial 2) ! 0 = Guard_T" "real_of_int (T (initial 2)) < 3" by blast+
  have st: "stop_requested ?s1" by simp
  have "stop_requested ?s1 \<and> run_events 3 ?es ?s1 = Some ?s2 \<longrightarrow>
        stop_requested ?s2
        \<and> (\<forall>j < length (jobs ?s1). jobs ?s2 ! j = Body \<longrightarrow> jobs ?s1 ! j = Body)
        \<and> global_step ?s2 + int (in_flight ?s2) = global_step ?s1 + int (in_flight ?s1)
        \<and> length (filter (\<lambda>e. e \<noteq> Sigint) ?es) \<le> sum_list (map moves_left (jobs ?s1))
        \<and> sum_list (map moves_left (jobs ?s1)) \<le> 5 * length (jobs ?s1)"
    by (rule worker_loop_shutdown [where T_max = 3 and i = 0 and k = 1 and s = ?s1
          and s' = ?s1 and es = ?es and ?s2.0 = ?s2,
          THEN conjunct2, THEN conjunct2, THEN conjunct2, THEN conjunct2, THEN conjunct1])
  with st example_schedule(3)
  have w2: "global_step ?s2 + int (in_flight ?s2) = global_step ?s1 + int (in_flight ?s1)"
    by blast
  have w3: "all_joined ?s2" by (simp add: all_joined_def)
  show ?thesis
    apply (intro conjI)
           apply (rule example_schedule(1))
          apply (rule w1(1))
         apply (rule w1(2))
        apply (rule example_schedule(2))
       apply (rule example_schedule(3))
      apply (rule w2)
     apply (rule w3)
    apply (rule example_schedule(4))
    done
qed

end
